theory Spec2Isabelle
  imports Main "HOL-Library.Sublist"
begin

section \<open>String primitives of the host language\<close>

text \<open>
  The adapter is written in TypeScript and works on strings with the methods
  \<^verbatim>\<open>indexOf\<close>, \<^verbatim>\<open>lastIndexOf\<close>, \<^verbatim>\<open>substr\<close>, \<^verbatim>\<open>split\<close>, \<^verbatim>\<open>replace\<close>, \<^verbatim>\<open>join\<close> and the global
  \<^verbatim>\<open>parseInt\<close>. They are modelled on \<^typ>\<open>string\<close> (a list of characters) with
  integer positions, \<open>-1\<close> standing for "not found" as in the host language.
  A number is \<^typ>\<open>int option\<close>, \<open>None\<close> being \<^verbatim>\<open>NaN\<close>; the model does not round
  magnitudes beyond \<open>2 ^ 53\<close>, and it knows the ASCII white space only.
\<close>

type_synonym jsnum = "int option"

definition nl :: string where
  "nl = [CHR 0x0A]"

definition sq :: string where
  "sq = [CHR 0x27]"

definition dq :: string where
  "dq = [CHR 0x22]"

definition bq :: string where
  "bq = [CHR 0x60]"

fun indexOf :: "string \<Rightarrow> string \<Rightarrow> int" where
  "indexOf [] pat = (if pat = [] then 0 else - 1)"
| "indexOf (c # cs) pat =
     (if prefix pat (c # cs) then 0
      else (let r = indexOf cs pat in if r < 0 then - 1 else r + 1))"

fun lastIndexOf :: "string \<Rightarrow> string \<Rightarrow> int" where
  "lastIndexOf [] pat = (if pat = [] then 0 else - 1)"
| "lastIndexOf (c # cs) pat =
     (let r = lastIndexOf cs pat in
      if 0 \<le> r then r + 1 else if prefix pat (c # cs) then 0 else - 1)"

text \<open>\<^verbatim>\<open>s.substr(start)\<close> and \<^verbatim>\<open>s.substr(start, length)\<close>: a negative start counts from
  the end, a start beyond the end gives the empty string.\<close>

definition substrStart :: "string \<Rightarrow> int \<Rightarrow> nat" where
  "substrStart s start =
     (let n = int (length s) in nat (if start < 0 then max (n + start) 0 else min start n))"

definition substrFrom :: "string \<Rightarrow> int \<Rightarrow> string" where
  "substrFrom s start = drop (substrStart s start) s"

definition substr :: "string \<Rightarrow> int \<Rightarrow> int \<Rightarrow> string" where
  "substr s start len = take (nat len) (drop (substrStart s start) s)"

text \<open>\<^verbatim>\<open>s.split(sep)\<close> for a separator of one character, the only kind the adapter
  uses (\<^verbatim>\<open>"\n"\<close> and \<^verbatim>\<open>" "\<close>). The result is never empty: the empty string splits into
  one empty piece.\<close>

fun split_str :: "string \<Rightarrow> char \<Rightarrow> string list" where
  "split_str [] sep = [[]]"
| "split_str (c # cs) sep =
     (if c = sep then [] # split_str cs sep
      else (case split_str cs sep of
              [] \<Rightarrow> [[c]]
            | p # ps \<Rightarrow> (c # p) # ps))"

text \<open>\<^verbatim>\<open>s.replace(pat, rep)\<close> with a string pattern replaces the first occurrence only.\<close>

definition replace_str :: "string \<Rightarrow> string \<Rightarrow> string \<Rightarrow> string" where
  "replace_str s pat rep =
     (let i = indexOf s pat in
      if i < 0 then s else take (nat i) s @ rep @ drop (nat i + length pat) s)"

fun join :: "string list \<Rightarrow> string \<Rightarrow> string" where
  "join [] sep = []"
| "join [x] sep = x"
| "join (x # y # ys) sep = x @ sep @ join (y # ys) sep"

subsection \<open>Numbers and their text\<close>

definition isWhiteSpace :: "char \<Rightarrow> bool" where
  "isWhiteSpace c \<longleftrightarrow>
     c = CHR 0x20 \<or> c = CHR 0x09 \<or> c = CHR 0x0A \<or> c = CHR 0x0B \<or> c = CHR 0x0C \<or> c = CHR 0x0D"

definition digitValue :: "char \<Rightarrow> nat option" where
  "digitValue c =
     (let n = (of_char c :: nat) in
      if 48 \<le> n \<and> n \<le> 57 then Some (n - 48)
      else if 97 \<le> n \<and> n \<le> 122 then Some (n - 87)
      else if 65 \<le> n \<and> n \<le> 90 then Some (n - 55)
      else None)"

definition isDigitIn :: "nat \<Rightarrow> char \<Rightarrow> bool" where
  "isDigitIn radix c = (case digitValue c of None \<Rightarrow> False | Some d \<Rightarrow> d < radix)"

definition digitsValue :: "nat \<Rightarrow> string \<Rightarrow> nat" where
  "digitsValue radix ds =
     foldl (\<lambda>acc c. acc * radix + (case digitValue c of None \<Rightarrow> 0 | Some d \<Rightarrow> d)) 0 ds"

definition parseInt :: "string \<Rightarrow> jsnum" where
  "parseInt str =
     (let s = dropWhile isWhiteSpace str;
          neg = (take 1 s = ''-'');
          s1 = (if take 1 s = ''-'' \<or> take 1 s = ''+'' then drop 1 s else s);
          hex = (take 2 s1 = ''0x'' \<or> take 2 s1 = ''0X'');
          radix = (if hex then 16 else 10);
          s2 = (if hex then drop 2 s1 else s1);
          z = takeWhile (isDigitIn radix) s2
      in if z = [] then None
         else Some (if neg then - int (digitsValue radix z) else int (digitsValue radix z)))"

text \<open>\<^verbatim>\<open>parseInt(undefined)\<close> reads the text \<^verbatim>\<open>"undefined"\<close>, which has no digit.\<close>

definition parseIntOpt :: "string option \<Rightarrow> jsnum" where
  "parseIntOpt x = (case x of None \<Rightarrow> parseInt ''undefined'' | Some s \<Rightarrow> parseInt s)"

fun natToString :: "nat \<Rightarrow> string" where
  "natToString n =
     (if n < 10 then [char_of (48 + n)]
      else natToString (n div 10) @ [char_of (48 + n mod 10)])"

declare natToString.simps [simp del]

definition intToString :: "int \<Rightarrow> string" where
  "intToString i = (if i < 0 then ''-'' @ natToString (nat (- i)) else natToString (nat i))"

definition numberToString :: "jsnum \<Rightarrow> string" where
  "numberToString x = (case x of None \<Rightarrow> ''NaN'' | Some i \<Rightarrow> intToString i)"

text \<open>\<^verbatim>\<open>xs[i]\<close> is \<^verbatim>\<open>undefined\<close> outside the array.\<close>

definition jsIndex :: "'a list \<Rightarrow> int \<Rightarrow> 'a option" where
  "jsIndex xs i = (if 0 \<le> i \<and> i < int (length xs) then Some (xs ! nat i) else None)"

section \<open>Prompt stripping\<close>

definition removePrompt :: "string \<Rightarrow> string" where
  "removePrompt line =
     (if indexOf line ''bashdb<'' = 0 then substrFrom line (indexOf line ''> '' + 2)
      else line)"

section \<open>Protocol data\<close>

text \<open>
  The values the adapter builds for the protocol library. Of a response the model keeps
  the sequence number of the request it answers and the body; \<open>None\<close> is a body that
  was never assigned.
\<close>

datatype error = TypeError

record capabilities =
  supportsConditionalBreakpoints :: bool
  supportsConfigurationDoneRequest :: bool
  supportsEvaluateForHovers :: bool
  supportsStepBack :: bool
  supportsSetVariable :: bool

record breakpoint =
  bp_verified :: bool
  bp_line :: jsnum
  bp_id :: jsnum

record stackFrame =
  frame_index :: jsnum
  frame_text :: string
  frame_source_name :: string
  frame_source_path :: string
  frame_line :: jsnum

record variable =
  var_name :: string
  var_type :: string
  var_value :: string
  var_variablesReference :: nat

datatype body =
    InitializeBody capabilities
  | SetBreakpointsBody "breakpoint list"
  | ThreadsBody "(nat \<times> string) list"
  | StackTraceBody "stackFrame list" int
  | ScopesBody "(string \<times> nat \<times> bool) list"
  | VariablesBody "variable list"
  | EvaluateBody string nat

record response =
  request_seq :: nat
  body :: "body option"

datatype dapEvent =
    InitializedEvent
  | TerminatedEvent
  | StoppedEvent string nat
  | OutputEvent string "string option"

datatype message = SentResponse response | SentEvent dapEvent

record launchRequestArguments =
  scriptPath :: string
  commandLineArguments :: string
  bashDbPath :: "string option"
  showDebugOutput :: "bool option"

record setBreakpointsArguments =
  source_path :: string
  breakpoint_lines :: "int list"

record stackTraceArguments =
  startFrame :: "int option"
  levels :: "int option"

text \<open>
  A scheduled callback is a closure over the handler it will call and that handler's
  arguments. Arguments a handler never reads (the thread id of the step requests, the
  reference of the variables request) are left out.
\<close>

datatype callback =
    CB_launchRequestFinalize response launchRequestArguments
  | CB_setBreakPointsRequest response setBreakpointsArguments
  | CB_setBreakPointsRequestFinalize response setBreakpointsArguments nat
  | CB_stackTraceRequest response stackTraceArguments
  | CB_stackTraceRequestFinalize response stackTraceArguments nat
  | CB_variablesRequest response
  | CB_variablesRequestFinalize response nat
  | CB_continueRequest response
  | CB_continueRequestFinalize response nat
  | CB_nextRequest response
  | CB_nextRequestFinalize response nat
  | CB_stepInRequest response
  | CB_stepInRequestFinalize response nat
  | CB_stepOutRequest response
  | CB_stepOutRequestFinalize response nat
  | CB_evaluateRequest response string
  | CB_evaluateRequestFinalize response string nat
  | CB_processDebugTerminalOutput bool

section \<open>The session\<close>

text \<open>
  The first five fields are the fields of \<^verbatim>\<open>BashDebugSession\<close>. The others make the
  effects on the surroundings explicit:
  \<^item> \<open>timeouts\<close>: the callbacks handed to \<^verbatim>\<open>setTimeout\<close> and not yet run; all use the
    same delay, so they run in the order they were added;
  \<^item> \<open>intervalRunning\<close>: whether the interval started by \<^verbatim>\<open>launchRequestFinalize\<close> is
    installed (a session is launched once);
  \<^item> \<open>childStdin\<close>: every text written to the child's input, in order;
  \<^item> \<open>outbox\<close>: every call of \<^verbatim>\<open>sendResponse\<close> and \<^verbatim>\<open>sendEvent\<close>, in order, with the
    response as it is at the call (what the protocol library does with a response it is
    handed a second time is not part of this source file);
  \<^item> \<open>exitListeners\<close>: the responses captured by the listeners that
    \<^verbatim>\<open>disconnectRequest\<close> puts on the child's exit event;
  \<^item> \<open>killCallbacks\<close>: the number of \<^verbatim>\<open>tree-kill\<close> calls whose callback is outstanding;
  \<^item> \<open>fifoExists\<close>, \<open>readStreams\<close>: whether the named pipe exists, and the read streams
    opened on it (each with its \<^verbatim>\<open>sendOutput\<close> flag);
  \<^item> \<open>spawned\<close>: the debugger path, script path and arguments of each spawned child;
  \<^item> \<open>clientLinesStartAt1\<close>: the client's line numbering, which the protocol library
    keeps for \<^verbatim>\<open>convertDebuggerLineToClient\<close>.
\<close>

record session =
  currentBreakpointIds :: "string \<rightharpoonup> jsnum list"
  fullDebugOutput :: "string list"
  fullDebugOutputIndex :: nat
  debuggerExecutableBusy :: bool
  debuggerExecutableClosing :: bool
  timeouts :: "callback list"
  intervalRunning :: bool
  childStdin :: "string list"
  outbox :: "message list"
  exitListeners :: "response list"
  killCallbacks :: nat
  fifoExists :: bool
  readStreams :: "bool list"
  spawned :: "(string \<times> string \<times> string) list"
  clientLinesStartAt1 :: bool

definition THREAD_ID :: nat where
  "THREAD_ID = 42"

definition END_MARKER :: string where
  "END_MARKER = ''############################################################''"

text \<open>The session as the constructor and the field initialisers leave it.\<close>

definition newSession :: session where
  "newSession =
     \<lparr> currentBreakpointIds = Map.empty,
       fullDebugOutput = [[]],
       fullDebugOutputIndex = 0,
       debuggerExecutableBusy = False,
       debuggerExecutableClosing = False,
       timeouts = [],
       intervalRunning = False,
       childStdin = [],
       outbox = [],
       exitListeners = [],
       killCallbacks = 0,
       fifoExists = False,
       readStreams = [],
       spawned = [],
       clientLinesStartAt1 = True \<rparr>"

subsection \<open>Effects\<close>

definition scheduleExecution :: "callback \<Rightarrow> session \<Rightarrow> session" where
  "scheduleExecution cb s =
     (if \<not> debuggerExecutableClosing s then s\<lparr>timeouts := timeouts s @ [cb]\<rparr> else s)"

definition sendResponse :: "response \<Rightarrow> session \<Rightarrow> session" where
  "sendResponse r s = s\<lparr>outbox := outbox s @ [SentResponse r]\<rparr>"

definition sendEvent :: "dapEvent \<Rightarrow> session \<Rightarrow> session" where
  "sendEvent e s = s\<lparr>outbox := outbox s @ [SentEvent e]\<rparr>"

definition stdinWrite :: "string \<Rightarrow> session \<Rightarrow> session" where
  "stdinWrite txt s = s\<lparr>childStdin := childStdin s @ [txt]\<rparr>"

definition printEndMarker :: string where
  "printEndMarker = ''print '' @ sq @ END_MARKER @ sq @ nl"

definition convertDebuggerLineToClient :: "session \<Rightarrow> jsnum \<Rightarrow> jsnum" where
  "convertDebuggerLineToClient s line =
     (if clientLinesStartAt1 s then line else map_option (\<lambda>n. n - 1) line)"

subsection \<open>Completion detection\<close>

definition promptReached :: "session \<Rightarrow> nat \<Rightarrow> bool" where
  "promptReached s currentOutputLength \<longleftrightarrow>
     length (fullDebugOutput s) > currentOutputLength \<and>
     jsIndex (fullDebugOutput s) (int (length (fullDebugOutput s)) - 2) = Some END_MARKER"

subsection \<open>The pipe's output\<close>

definition processDebugTerminalOutput :: "bool \<Rightarrow> session \<Rightarrow> session" where
  "processDebugTerminalOutput sendOutput s =
     (if \<not> fifoExists s then scheduleExecution (CB_processDebugTerminalOutput sendOutput) s
      else s\<lparr>readStreams := readStreams s @ [sendOutput]\<rparr>)"

text \<open>
  The listener for a chunk of the pipe. \<^verbatim>\<open>pop\<close> on an empty array gives \<^verbatim>\<open>undefined\<close>,
  which the template prints as that word; the buffer starts with one entry and every
  call puts back at least the one it takes, so this does not arise in a session.
\<close>

definition onData :: "bool \<Rightarrow> string \<Rightarrow> session \<Rightarrow> session" where
  "onData sendOutput data s =
     (let s1 = (if sendOutput then sendEvent (OutputEvent data None) s else s);
          list = split_str data (CHR 0x0A);
          popped = (case fullDebugOutput s1 of [] \<Rightarrow> ''undefined'' | _ \<Rightarrow> last (fullDebugOutput s1));
          fullLine = popped @ hd list
      in s1\<lparr>fullDebugOutput :=
             butlast (fullDebugOutput s1) @ [removePrompt fullLine] @ map removePrompt (tl list)\<rparr>)"

definition onEnd :: "bool \<Rightarrow> session \<Rightarrow> session" where
  "onEnd sendOutput s = scheduleExecution (CB_processDebugTerminalOutput sendOutput) s"

section \<open>Request handlers\<close>

definition initializeRequest :: "response \<Rightarrow> session \<Rightarrow> session" where
  "initializeRequest response s =
     sendResponse (response\<lparr>body := Some (InitializeBody
         \<lparr> supportsConditionalBreakpoints = False,
           supportsConfigurationDoneRequest = False,
           supportsEvaluateForHovers = True,
           supportsStepBack = False,
           supportsSetVariable = False \<rparr>)\<rparr>) s"

text \<open>
  \<^verbatim>\<open>disconnectRequest\<close> clears the busy flag, puts a listener on the child's exit event
  and asks for the process tree to be killed; the callback of that call writes
  \<^verbatim>\<open>quit\<close> to the child. The listener and the callback run later, as \<open>onExit\<close> and
  \<open>onKillDone\<close>.
\<close>

definition disconnectRequest :: "response \<Rightarrow> session \<Rightarrow> session" where
  "disconnectRequest response s =
     s\<lparr> debuggerExecutableBusy := False,
        exitListeners := exitListeners s @ [response],
        killCallbacks := Suc (killCallbacks s) \<rparr>"

definition onExit :: "session \<Rightarrow> session" where
  "onExit s =
     foldl (\<lambda>s' response. sendResponse response (s'\<lparr>debuggerExecutableClosing := True\<rparr>))
       s (exitListeners s)"

definition onKillDone :: "session \<Rightarrow> session" where
  "onKillDone s =
     (if killCallbacks s = 0 then s
      else stdinWrite (''quit'' @ nl) (s\<lparr>killCallbacks := killCallbacks s - 1\<rparr>))"

text \<open>
  \<^verbatim>\<open>launchRequest\<close>: the shell script handed to the child is not reproduced, only the
  three values it interpolates. The listeners on the child's own output are \<open>onStdout\<close>
  and \<open>onStderr\<close>.
\<close>

definition launchRequest :: "response \<Rightarrow> launchRequestArguments \<Rightarrow> session \<Rightarrow> session" where
  "launchRequest response args s =
     (let path = (case bashDbPath args of
                    None \<Rightarrow> ''bashdb''
                  | Some p \<Rightarrow> if p = [] then ''bashdb'' else p);
          args' = args\<lparr>bashDbPath := Some path\<rparr>;
          s1 = s\<lparr>spawned := spawned s @ [(path, scriptPath args', commandLineArguments args')]\<rparr>;
          s2 = processDebugTerminalOutput (showDebugOutput args' = Some True) s1;
          s3 = stdinWrite printEndMarker s2
      in scheduleExecution (CB_launchRequestFinalize response args') s3)"

definition onStdout :: "string \<Rightarrow> session \<Rightarrow> session" where
  "onStdout data s = sendEvent (OutputEvent data (Some ''console'')) s"

definition onStderr :: "string \<Rightarrow> session \<Rightarrow> session" where
  "onStderr data s = sendEvent (OutputEvent data (Some ''stderr'')) s"

definition launchRequestFinalize ::
    "response \<Rightarrow> launchRequestArguments \<Rightarrow> session \<Rightarrow> session" where
  "launchRequestFinalize response args s =
     (if list_ex (\<lambda>l. l = END_MARKER) (fullDebugOutput s)
      then (sendEvent InitializedEvent (sendResponse response s))\<lparr>intervalRunning := True\<rparr>
      else scheduleExecution (CB_launchRequestFinalize response args) s)"

text \<open>The body of the interval: one pass over the lines not yet looked at, the last
  buffered line excepted.\<close>

definition inspectLine :: "string \<Rightarrow> session \<Rightarrow> session" where
  "inspectLine line s =
     (if indexOf line ''(/'' = 0 \<and> indexOf line ''):'' = int (length line) - 2
      then sendEvent (StoppedEvent ''break'' THREAD_ID) s
      else if indexOf line ''terminated'' > 0
      then sendEvent TerminatedEvent (s\<lparr>intervalRunning := False\<rparr>)
      else s)"

definition onInterval :: "session \<Rightarrow> session" where
  "onInterval s =
     (let n = length (fullDebugOutput s) - 1;
          s1 = foldl (\<lambda>s' i. inspectLine (fullDebugOutput s ! i) s') s [fullDebugOutputIndex s ..< n]
      in s1\<lparr>fullDebugOutputIndex := max (fullDebugOutputIndex s) n\<rparr>)"

subsection \<open>Breakpoints\<close>

definition setBreakpointsCommand :: "jsnum list \<Rightarrow> setBreakpointsArguments \<Rightarrow> string" where
  "setBreakpointsCommand ids args =
     ''print '' @ sq @ ''delete <'' @ join (map numberToString ids) '' '' @ ''>'' @ sq @ nl @
     ''delete '' @ join (map numberToString ids) '' '' @ nl @
     ''load '' @ source_path args @ nl @
     concat (map (\<lambda>line.
        ''print '' @ sq @ '' <'' @ source_path args @ '':'' @ intToString line @ ''> '' @ sq @ nl @
        ''break '' @ source_path args @ '':'' @ intToString line @ nl) (breakpoint_lines args))"

definition setBreakPointsRequest ::
    "response \<Rightarrow> setBreakpointsArguments \<Rightarrow> session \<Rightarrow> session" where
  "setBreakPointsRequest response args s =
     (if debuggerExecutableBusy s
      then scheduleExecution (CB_setBreakPointsRequest response args) s
      else
        (let ids = (case currentBreakpointIds s (source_path args) of None \<Rightarrow> [] | Some l \<Rightarrow> l);
             s1 = s\<lparr>currentBreakpointIds := (currentBreakpointIds s)(source_path args \<mapsto> ids)\<rparr>;
             s2 = s1\<lparr>debuggerExecutableBusy := True\<rparr>;
             currentLine = length (fullDebugOutput s2);
             s3 = stdinWrite (setBreakpointsCommand ids args @ printEndMarker) s2
         in scheduleExecution (CB_setBreakPointsRequestFinalize response args currentLine) s3))"

text \<open>A line is taken for a confirmation or a value when the line before it has the
  shape of a marker.\<close>

definition isMarkerLine :: "string \<Rightarrow> bool" where
  "isMarkerLine prev \<longleftrightarrow> indexOf prev '' <'' = 0 \<and> indexOf prev ''> '' > 0"

definition parseBreakpoint :: "session \<Rightarrow> string \<Rightarrow> breakpoint" where
  "parseBreakpoint s line =
     (let lineNodes = split_str line (CHR '' '') in
      \<lparr> bp_verified = True,
        bp_line = convertDebuggerLineToClient s
                    (parseInt (replace_str (last lineNodes) ''.'' [])),
        bp_id = parseIntOpt (jsIndex lineNodes 1) \<rparr>)"

text \<open>The loop over the captured lines. Reading the line before index \<open>0\<close> gives
  \<^verbatim>\<open>undefined\<close>, and calling a method on it throws.\<close>

fun breakpointLoop :: "session \<Rightarrow> nat list \<Rightarrow> breakpoint list \<Rightarrow> error + breakpoint list" where
  "breakpointLoop s [] acc = Inr acc"
| "breakpointLoop s (i # rest) acc =
     (case jsIndex (fullDebugOutput s) (int i - 1) of
        None \<Rightarrow> Inl TypeError
      | Some prev \<Rightarrow>
          if isMarkerLine prev
          then (case jsIndex (fullDebugOutput s) (int i) of
                  None \<Rightarrow> Inl TypeError
                | Some line \<Rightarrow> breakpointLoop s rest (acc @ [parseBreakpoint s line]))
          else breakpointLoop s rest acc)"

definition setBreakPointsRequestFinalize ::
    "response \<Rightarrow> setBreakpointsArguments \<Rightarrow> nat \<Rightarrow> session \<Rightarrow> error + session" where
  "setBreakPointsRequestFinalize response args currentOutputLength s =
     (let s0 = sendResponse response s in
      if promptReached s0 currentOutputLength
      then (case breakpointLoop s0
                   [currentOutputLength ..< length (fullDebugOutput s0) - 2] [] of
              Inl e \<Rightarrow> Inl e
            | Inr breakpoints \<Rightarrow>
                (let s1 = s0\<lparr>currentBreakpointIds :=
                              (currentBreakpointIds s0)(source_path args \<mapsto> map bp_id breakpoints)\<rparr>;
                     response' = response\<lparr>body := Some (SetBreakpointsBody breakpoints)\<rparr>;
                     s2 = s1\<lparr>debuggerExecutableBusy := False\<rparr>
                 in Inr (sendResponse response' s2)))
      else Inr (scheduleExecution
                  (CB_setBreakPointsRequestFinalize response args currentOutputLength) s0))"

subsection \<open>Threads, stack trace, scopes\<close>

definition threadsRequest :: "response \<Rightarrow> session \<Rightarrow> session" where
  "threadsRequest response s =
     sendResponse (response\<lparr>body := Some (ThreadsBody [(THREAD_ID, ''Bash thread'')])\<rparr>) s"

definition stackTraceRequest :: "response \<Rightarrow> stackTraceArguments \<Rightarrow> session \<Rightarrow> session" where
  "stackTraceRequest response args s =
     (if debuggerExecutableBusy s
      then scheduleExecution (CB_stackTraceRequest response args) s
      else
        (let s1 = s\<lparr>debuggerExecutableBusy := True\<rparr>;
             currentLine = length (fullDebugOutput s1);
             s2 = stdinWrite (''print backtrace'' @ nl @ ''backtrace'' @ nl @ printEndMarker) s1
         in scheduleExecution (CB_stackTraceRequestFinalize response args currentLine) s2))"

text \<open>The name of a path as the \<^verbatim>\<open>basename\<close> of the platform's path module gives it on
  a POSIX system: the last part, trailing separators dropped. A frame keeps the path as
  the debugger printed it; the protocol library's conversion of paths for the client is
  not part of this source file. The handler computes a first frame and a number of
  levels from the arguments and never uses them.\<close>

definition basename :: "string \<Rightarrow> string" where
  "basename p = rev (takeWhile (\<lambda>c. c \<noteq> CHR ''/'') (dropWhile (\<lambda>c. c = CHR ''/'') (rev p)))"

definition parseFrame :: "session \<Rightarrow> string \<Rightarrow> stackFrame" where
  "parseFrame s lineContent =
     (let frameSourcePath =
            substr lineContent (lastIndexOf lineContent bq + 1)
              (lastIndexOf lineContent sq - lastIndexOf lineContent bq - 1)
      in \<lparr> frame_index = parseInt (substr lineContent 2 2),
           frame_text = lineContent,
           frame_source_name = basename frameSourcePath,
           frame_source_path = frameSourcePath,
           frame_line = convertDebuggerLineToClient s
                          (parseInt (substrFrom lineContent (lastIndexOf lineContent '' ''))) \<rparr>)"

definition stackTraceRequestFinalize ::
    "response \<Rightarrow> stackTraceArguments \<Rightarrow> nat \<Rightarrow> session \<Rightarrow> session" where
  "stackTraceRequestFinalize response args currentOutputLength s =
     (if promptReached s currentOutputLength
      then
        (let frames = map (\<lambda>i. parseFrame s (fullDebugOutput s ! i))
                        [currentOutputLength ..< length (fullDebugOutput s) - 2];
             totalFrames = int (length (fullDebugOutput s)) - int currentOutputLength - 1;
             response' = response\<lparr>body := Some (StackTraceBody frames totalFrames)\<rparr>;
             s1 = s\<lparr>debuggerExecutableBusy := False\<rparr>
         in sendResponse response' s1)
      else scheduleExecution
             (CB_stackTraceRequestFinalize response args currentOutputLength) s)"

definition scopesRequest :: "response \<Rightarrow> session \<Rightarrow> session" where
  "scopesRequest response s =
     sendResponse (response\<lparr>body :=
        Some (ScopesBody [(''Local'', fullDebugOutputIndex s, False)])\<rparr>) s"

subsection \<open>Variables\<close>

definition variableNames :: "string list" where
  "variableNames =
     [''PWD'', ''?''] @ [''0'', ''1'', ''2'', ''3'', ''4''] @ [''5'', ''6'', ''7'', ''8'', ''9'']"

definition getVariablesCommand :: string where
  "getVariablesCommand =
     ''info program'' @ nl @
     concat (map (\<lambda>v. ''print '' @ sq @ '' <$'' @ v @ ''> '' @ sq @ nl @
                       ''examine $'' @ v @ nl) variableNames)"

definition variablesRequest :: "response \<Rightarrow> session \<Rightarrow> session" where
  "variablesRequest response s =
     (if debuggerExecutableBusy s
      then scheduleExecution (CB_variablesRequest response) s
      else
        (let s1 = s\<lparr>debuggerExecutableBusy := True\<rparr>;
             currentLine = length (fullDebugOutput s1);
             s2 = stdinWrite (getVariablesCommand @ printEndMarker) s1
         in scheduleExecution (CB_variablesRequestFinalize response currentLine) s2))"

fun variableLoop :: "session \<Rightarrow> nat list \<Rightarrow> variable list \<Rightarrow> error + variable list" where
  "variableLoop s [] acc = Inr acc"
| "variableLoop s (i # rest) acc =
     (case jsIndex (fullDebugOutput s) (int i - 1) of
        None \<Rightarrow> Inl TypeError
      | Some prev \<Rightarrow>
          if isMarkerLine prev
          then (case jsIndex (fullDebugOutput s) (int i) of
                  None \<Rightarrow> Inl TypeError
                | Some line \<Rightarrow>
                    variableLoop s rest (acc @
                      [\<lparr> var_name = replace_str (replace_str prev '' <'' []) ''> '' [],
                         var_type = ''string'',
                         var_value = line,
                         var_variablesReference = 0 \<rparr>]))
          else variableLoop s rest acc)"

definition variablesRequestFinalize :: "response \<Rightarrow> nat \<Rightarrow> session \<Rightarrow> error + session" where
  "variablesRequestFinalize response currentOutputLength s =
     (if promptReached s currentOutputLength
      then (case variableLoop s
                   [currentOutputLength ..< length (fullDebugOutput s) - 2] [] of
              Inl e \<Rightarrow> Inl e
            | Inr variables \<Rightarrow>
                (let response' = response\<lparr>body := Some (VariablesBody variables)\<rparr>;
                     s1 = s\<lparr>debuggerExecutableBusy := False\<rparr>
                 in Inr (sendResponse response' s1)))
      else Inr (scheduleExecution
                  (CB_variablesRequestFinalize response currentOutputLength) s))"

subsection \<open>Continue and the three steps\<close>

definition continueRequest :: "response \<Rightarrow> session \<Rightarrow> session" where
  "continueRequest response s =
     (if debuggerExecutableBusy s
      then scheduleExecution (CB_continueRequest response) s
      else
        (let s1 = s\<lparr>debuggerExecutableBusy := True\<rparr>;
             currentLine = length (fullDebugOutput s1);
             s2 = stdinWrite (''print continue'' @ nl @ ''continue'' @ nl @ printEndMarker) s1;
             s3 = scheduleExecution (CB_continueRequestFinalize response currentLine) s2
         in sendResponse response s3))"

definition continueRequestFinalize :: "response \<Rightarrow> nat \<Rightarrow> session \<Rightarrow> session" where
  "continueRequestFinalize response currentOutputLength s =
     (if promptReached s currentOutputLength
      then s\<lparr>debuggerExecutableBusy := False\<rparr>
      else scheduleExecution (CB_continueRequestFinalize response currentOutputLength) s)"

definition nextRequest :: "response \<Rightarrow> session \<Rightarrow> session" where
  "nextRequest response s =
     (if debuggerExecutableBusy s
      then scheduleExecution (CB_nextRequest response) s
      else
        (let s1 = s\<lparr>debuggerExecutableBusy := True\<rparr>;
             currentLine = length (fullDebugOutput s1);
             s2 = stdinWrite (''print next'' @ nl @ ''next'' @ nl @ printEndMarker) s1;
             s3 = scheduleExecution (CB_nextRequestFinalize response currentLine) s2
         in sendResponse response s3))"

definition nextRequestFinalize :: "response \<Rightarrow> nat \<Rightarrow> session \<Rightarrow> session" where
  "nextRequestFinalize response currentOutputLength s =
     (if promptReached s currentOutputLength
      then s\<lparr>debuggerExecutableBusy := False\<rparr>
      else scheduleExecution (CB_nextRequestFinalize response currentOutputLength) s)"

definition stepInRequest :: "response \<Rightarrow> session \<Rightarrow> session" where
  "stepInRequest response s =
     (if debuggerExecutableBusy s
      then scheduleExecution (CB_stepInRequest response) s
      else
        (let s1 = s\<lparr>debuggerExecutableBusy := True\<rparr>;
             currentLine = length (fullDebugOutput s1);
             s2 = stdinWrite (''print step'' @ nl @ ''step'' @ nl @ printEndMarker) s1;
             s3 = scheduleExecution (CB_stepInRequestFinalize response currentLine) s2
         in sendResponse response s3))"

definition stepInRequestFinalize :: "response \<Rightarrow> nat \<Rightarrow> session \<Rightarrow> session" where
  "stepInRequestFinalize response currentOutputLength s =
     (if promptReached s currentOutputLength
      then s\<lparr>debuggerExecutableBusy := False\<rparr>
      else scheduleExecution (CB_stepInRequestFinalize response currentOutputLength) s)"

definition stepOutRequest :: "response \<Rightarrow> session \<Rightarrow> session" where
  "stepOutRequest response s =
     (if debuggerExecutableBusy s
      then scheduleExecution (CB_stepOutRequest response) s
      else
        (let s1 = s\<lparr>debuggerExecutableBusy := True\<rparr>;
             currentLine = length (fullDebugOutput s1);
             s2 = stdinWrite (''print finish'' @ nl @ ''finish'' @ nl @ printEndMarker) s1;
             s3 = scheduleExecution (CB_stepOutRequestFinalize response currentLine) s2
         in sendResponse response s3))"

definition stepOutRequestFinalize :: "response \<Rightarrow> nat \<Rightarrow> session \<Rightarrow> session" where
  "stepOutRequestFinalize response currentOutputLength s =
     (if promptReached s currentOutputLength
      then s\<lparr>debuggerExecutableBusy := False\<rparr>
      else scheduleExecution (CB_stepOutRequestFinalize response currentOutputLength) s)"

subsection \<open>Evaluate\<close>

definition evaluateRequest :: "response \<Rightarrow> string \<Rightarrow> session \<Rightarrow> session" where
  "evaluateRequest response expression s =
     (if debuggerExecutableBusy s
      then scheduleExecution (CB_evaluateRequest response expression) s
      else
        (let s1 = s\<lparr>debuggerExecutableBusy := True\<rparr>;
             currentLine = length (fullDebugOutput s1);
             s2 = stdinWrite
                    (''print '' @ sq @ ''examine <'' @ expression @ ''>'' @ sq @ nl @
                     ''examine '' @ replace_str expression dq [] @ nl @ printEndMarker) s1
         in scheduleExecution (CB_evaluateRequestFinalize response expression currentLine) s2))"

definition evaluateRequestFinalize :: "response \<Rightarrow> string \<Rightarrow> nat \<Rightarrow> session \<Rightarrow> session" where
  "evaluateRequestFinalize response expression currentOutputLength s =
     (if promptReached s currentOutputLength
      then
        (let value = (case jsIndex (fullDebugOutput s) (int currentOutputLength) of
                        None \<Rightarrow> ''undefined''
                      | Some line \<Rightarrow> line);
             response' = response\<lparr>body :=
                 Some (EvaluateBody (expression @ '' = '' @ sq @ value @ sq) 0)\<rparr>;
             s1 = s\<lparr>debuggerExecutableBusy := False\<rparr>
         in sendResponse response' s1)
      else scheduleExecution
             (CB_evaluateRequestFinalize response expression currentOutputLength) s)"

section \<open>The session as a machine\<close>

text \<open>
  Everything the adapter does is a reaction to something from outside: a request of
  the client, a timeout coming due, the interval, data or the end of a read stream on
  the pipe, output of the child, the child's exit, the end of a kill, and the pipe
  appearing or disappearing in the file system. A launch is the first request of a
  session and is not repeated, so it is not among the requests here; a launched session
  is \<open>launchRequest response args newSession\<close>. A handler that throws ends the run.
\<close>

datatype request =
    InitializeRequest
  | DisconnectRequest
  | SetBreakPointsRequest setBreakpointsArguments
  | ThreadsRequest
  | StackTraceRequest stackTraceArguments
  | ScopesRequest
  | VariablesRequest
  | ContinueRequest
  | NextRequest
  | StepInRequest
  | StepOutRequest
  | EvaluateRequest string

datatype occurrence =
    Request nat request
  | Timeout
  | Interval
  | FifoData bool string
  | FifoEnd bool
  | StdoutData string
  | StderrData string
  | ChildExit
  | KillDone
  | FifoCreated
  | FifoRemoved

fun runCallback :: "callback \<Rightarrow> session \<Rightarrow> error + session" where
  "runCallback (CB_launchRequestFinalize r a) s = Inr (launchRequestFinalize r a s)"
| "runCallback (CB_setBreakPointsRequest r a) s = Inr (setBreakPointsRequest r a s)"
| "runCallback (CB_setBreakPointsRequestFinalize r a n) s = setBreakPointsRequestFinalize r a n s"
| "runCallback (CB_stackTraceRequest r a) s = Inr (stackTraceRequest r a s)"
| "runCallback (CB_stackTraceRequestFinalize r a n) s = Inr (stackTraceRequestFinalize r a n s)"
| "runCallback (CB_variablesRequest r) s = Inr (variablesRequest r s)"
| "runCallback (CB_variablesRequestFinalize r n) s = variablesRequestFinalize r n s"
| "runCallback (CB_continueRequest r) s = Inr (continueRequest r s)"
| "runCallback (CB_continueRequestFinalize r n) s = Inr (continueRequestFinalize r n s)"
| "runCallback (CB_nextRequest r) s = Inr (nextRequest r s)"
| "runCallback (CB_nextRequestFinalize r n) s = Inr (nextRequestFinalize r n s)"
| "runCallback (CB_stepInRequest r) s = Inr (stepInRequest r s)"
| "runCallback (CB_stepInRequestFinalize r n) s = Inr (stepInRequestFinalize r n s)"
| "runCallback (CB_stepOutRequest r) s = Inr (stepOutRequest r s)"
| "runCallback (CB_stepOutRequestFinalize r n) s = Inr (stepOutRequestFinalize r n s)"
| "runCallback (CB_evaluateRequest r e) s = Inr (evaluateRequest r e s)"
| "runCallback (CB_evaluateRequestFinalize r e n) s = Inr (evaluateRequestFinalize r e n s)"
| "runCallback (CB_processDebugTerminalOutput b) s = Inr (processDebugTerminalOutput b s)"

text \<open>The protocol library builds the response object for a request before it calls the
  handler; its body is not assigned yet.\<close>

definition newResponse :: "nat \<Rightarrow> response" where
  "newResponse seq = \<lparr> request_seq = seq, body = None \<rparr>"

fun dispatchRequest :: "response \<Rightarrow> request \<Rightarrow> session \<Rightarrow> session" where
  "dispatchRequest r InitializeRequest s = initializeRequest r s"
| "dispatchRequest r DisconnectRequest s = disconnectRequest r s"
| "dispatchRequest r (SetBreakPointsRequest a) s = setBreakPointsRequest r a s"
| "dispatchRequest r ThreadsRequest s = threadsRequest r s"
| "dispatchRequest r (StackTraceRequest a) s = stackTraceRequest r a s"
| "dispatchRequest r ScopesRequest s = scopesRequest r s"
| "dispatchRequest r VariablesRequest s = variablesRequest r s"
| "dispatchRequest r ContinueRequest s = continueRequest r s"
| "dispatchRequest r NextRequest s = nextRequest r s"
| "dispatchRequest r StepInRequest s = stepInRequest r s"
| "dispatchRequest r StepOutRequest s = stepOutRequest r s"
| "dispatchRequest r (EvaluateRequest e) s = evaluateRequest r e s"

fun step :: "session \<Rightarrow> occurrence \<Rightarrow> error + session" where
  "step s (Request seq q) = Inr (dispatchRequest (newResponse seq) q s)"
| "step s Timeout =
     (case timeouts s of
        [] \<Rightarrow> Inr s
      | cb # rest \<Rightarrow> runCallback cb (s\<lparr>timeouts := rest\<rparr>))"
| "step s Interval = Inr (if intervalRunning s then onInterval s else s)"
| "step s (FifoData sendOutput data) = Inr (onData sendOutput data s)"
| "step s (FifoEnd sendOutput) = Inr (onEnd sendOutput s)"
| "step s (StdoutData data) = Inr (onStdout data s)"
| "step s (StderrData data) = Inr (onStderr data s)"
| "step s ChildExit = Inr (onExit s)"
| "step s KillDone = Inr (onKillDone s)"
| "step s FifoCreated = Inr (s\<lparr>fifoExists := True\<rparr>)"
| "step s FifoRemoved = Inr (s\<lparr>fifoExists := False\<rparr>)"

fun run :: "session \<Rightarrow> occurrence list \<Rightarrow> error + session" where
  "run s [] = Inr s"
| "run s (e # es) = (case step s e of Inl err \<Rightarrow> Inl err | Inr s' \<Rightarrow> run s' es)"

text \<open>The callbacks that poll for the completion of a command, and the callbacks that
  offer a request to the gate again.\<close>

fun isPoller :: "callback \<Rightarrow> bool" where
  "isPoller (CB_setBreakPointsRequestFinalize r a n) = True"
| "isPoller (CB_stackTraceRequestFinalize r a n) = True"
| "isPoller (CB_variablesRequestFinalize r n) = True"
| "isPoller (CB_continueRequestFinalize r n) = True"
| "isPoller (CB_nextRequestFinalize r n) = True"
| "isPoller (CB_stepInRequestFinalize r n) = True"
| "isPoller (CB_stepOutRequestFinalize r n) = True"
| "isPoller (CB_evaluateRequestFinalize r e n) = True"
| "isPoller _ = False"

fun pollerMark :: "callback \<Rightarrow> nat" where
  "pollerMark (CB_setBreakPointsRequestFinalize r a n) = n"
| "pollerMark (CB_stackTraceRequestFinalize r a n) = n"
| "pollerMark (CB_variablesRequestFinalize r n) = n"
| "pollerMark (CB_continueRequestFinalize r n) = n"
| "pollerMark (CB_nextRequestFinalize r n) = n"
| "pollerMark (CB_stepInRequestFinalize r n) = n"
| "pollerMark (CB_stepOutRequestFinalize r n) = n"
| "pollerMark (CB_evaluateRequestFinalize r e n) = n"
| "pollerMark _ = 0"

section \<open>The gate\<close>

text \<open>
  The commands in flight, as the session sees them: the completion pollers waiting in
  the timeout queue. The invariant below is what the busy flag maintains for a session
  in which no disconnect has been requested: at most one poller waits, none waits while
  the flag is clear, each poller's high-water mark was taken from a buffer that is never
  empty, and no kill is under way.
\<close>

definition pollers :: "session \<Rightarrow> callback list" where
  "pollers s = filter isPoller (timeouts s)"

definition gateInvariant :: "session \<Rightarrow> bool" where
  "gateInvariant s \<longleftrightarrow>
     fullDebugOutput s \<noteq> [] \<and>
     list_all (\<lambda>cb. 1 \<le> pollerMark cb) (pollers s) \<and>
     length (pollers s) \<le> 1 \<and>
     (\<not> debuggerExecutableBusy s \<longrightarrow> pollers s = []) \<and>
     killCallbacks s = 0"

fun isDisconnect :: "occurrence \<Rightarrow> bool" where
  "isDisconnect (Request seq DisconnectRequest) = True"
| "isDisconnect _ = False"

text \<open>The requests that go through the gate.\<close>

fun isGated :: "request \<Rightarrow> bool" where
  "isGated (SetBreakPointsRequest a) = True"
| "isGated (StackTraceRequest a) = True"
| "isGated VariablesRequest = True"
| "isGated ContinueRequest = True"
| "isGated NextRequest = True"
| "isGated StepInRequest = True"
| "isGated StepOutRequest = True"
| "isGated (EvaluateRequest e) = True"
| "isGated _ = False"

text \<open>
  Two shapes of a reaction, by what it does to the gate. A neutral reaction leaves the
  busy flag, the child's input, the pollers and the kill count as they are. An admitting
  reaction sets the busy flag, writes one text and adds one poller whose mark is the
  length of the buffer (no poller when the session is closing).
\<close>

definition neutral :: "session \<Rightarrow> session \<Rightarrow> bool" where
  "neutral s s' \<longleftrightarrow>
     debuggerExecutableBusy s' = debuggerExecutableBusy s \<and>
     childStdin s' = childStdin s \<and>
     killCallbacks s' = killCallbacks s \<and>
     pollers s' = pollers s \<and>
     (fullDebugOutput s \<noteq> [] \<longrightarrow> fullDebugOutput s' \<noteq> [])"

definition admitting :: "session \<Rightarrow> session \<Rightarrow> bool" where
  "admitting s s' \<longleftrightarrow>
     \<not> debuggerExecutableBusy s \<and> debuggerExecutableBusy s' \<and>
     (\<exists>txt. childStdin s' = childStdin s @ [txt]) \<and>
     killCallbacks s' = killCallbacks s \<and>
     fullDebugOutput s' = fullDebugOutput s \<and>
     (\<exists>p. isPoller p \<and> pollerMark p = length (fullDebugOutput s) \<and>
          pollers s' = pollers s @ (if debuggerExecutableClosing s then [] else [p]))"

text \<open>The callbacks that offer a request to the gate again.\<close>

fun isRetry :: "callback \<Rightarrow> bool" where
  "isRetry (CB_setBreakPointsRequest r a) = True"
| "isRetry (CB_stackTraceRequest r a) = True"
| "isRetry (CB_variablesRequest r) = True"
| "isRetry (CB_continueRequest r) = True"
| "isRetry (CB_nextRequest r) = True"
| "isRetry (CB_stepInRequest r) = True"
| "isRetry (CB_stepOutRequest r) = True"
| "isRetry (CB_evaluateRequest r e) = True"
| "isRetry _ = False"

text \<open>
  A command is held in flight: the busy flag is set, nothing has been written since the
  command, and no poller other than the command's own waits.
\<close>

definition holding :: "callback \<Rightarrow> string list \<Rightarrow> session \<Rightarrow> bool" where
  "holding p written s \<longleftrightarrow>
     gateInvariant s \<and> debuggerExecutableBusy s \<and> childStdin s = written \<and>
     set (pollers s) \<subseteq> {p}"

section \<open>Worked sessions\<close>

text \<open>
  A session whose ledger holds the ids of an earlier call for \<^verbatim>\<open>/s.sh\<close> receives a
  set-breakpoints request for lines 5 and 10 of that file; the debugger then answers
  on the pipe, each answer behind a prompt.
\<close>

definition exampleArguments :: setBreakpointsArguments where
  "exampleArguments = \<lparr> source_path = ''/s.sh'', breakpoint_lines = [5, 10] \<rparr>"

definition exampleWaiting :: session where
  "exampleWaiting =
     setBreakPointsRequest (newResponse 4) exampleArguments
       (newSession\<lparr>currentBreakpointIds := [''/s.sh'' \<mapsto> [Some 7, Some 8]]\<rparr>)"

definition exampleOutput :: string where
  "exampleOutput =
     ''delete <7 8>'' @ nl @
     ''bashdb<1> Deleted breakpoints 7 8'' @ nl @
     ''bashdb<2> File /s.sh loaded.'' @ nl @
     ''bashdb<3>  </s.sh:5> '' @ nl @
     ''bashdb<4> Breakpoint 1 set in file /s.sh, line 5.'' @ nl @
     ''bashdb<5>  </s.sh:10> '' @ nl @
     ''bashdb<6> Breakpoint 2 set in file /s.sh, line 10.'' @ nl @
     ''bashdb<7> '' @ END_MARKER @ nl @
     ''bashdb<8> ''"

definition exampleSession :: session where
  "exampleSession = onData False exampleOutput exampleWaiting"

text \<open>What the debugger prints for a continue command that runs to the end of the
  command's output.\<close>

definition exampleReply :: string where
  "exampleReply = ''continue'' @ nl @ ''bashdb<1> '' @ END_MARKER @ nl @ ''bashdb<2> ''"

definition exampleTrace :: "occurrence list" where
  "exampleTrace = [Request 2 NextRequest, FifoData False exampleReply, Timeout, Timeout]"

text \<open>A session in which a continue request is in flight and a next request waits to
  be offered again, then the client disconnects and the child exits.\<close>

definition exampleRequests :: "occurrence list" where
  "exampleRequests = [Request 1 ContinueRequest, Request 2 NextRequest, Request 3 DisconnectRequest]"

definition exampleDisconnected :: session where
  "exampleDisconnected =
     disconnectRequest (newResponse 3)
       (nextRequest (newResponse 2) (continueRequest (newResponse 1) newSession))"

definition exampleClosing :: session where
  "exampleClosing = onExit exampleDisconnected"

section \<open>Facts about the string primitives\<close>

lemma indexOf_ge: "- 1 \<le> indexOf s pat"
  by (induction s) (auto simp: Let_def)

lemma indexOf_zero_iff: "indexOf s pat = 0 \<longleftrightarrow> prefix pat s"
proof (cases s)
  case Nil
  then show ?thesis by auto
next
  case (Cons c cs)
  have "- 1 \<le> indexOf cs pat" by (rule indexOf_ge)
  then show ?thesis using Cons by (auto simp: Let_def)
qed

lemma indexOf_absent:
  "indexOf s pat = - 1 \<longleftrightarrow> (\<forall>i \<le> length s. \<not> prefix pat (drop i s))"
proof (induction s)
  case Nil
  then show ?case by auto
next
  case (Cons c cs)
  have ge: "- 1 \<le> indexOf cs pat" by (rule indexOf_ge)
  show ?case
  proof
    assume a: "indexOf (c # cs) pat = - 1"
    then have np: "\<not> prefix pat (c # cs)" and r: "indexOf cs pat = - 1"
      using ge by (auto simp: Let_def split: if_splits)
    show "\<forall>i \<le> length (c # cs). \<not> prefix pat (drop i (c # cs))"
    proof (intro allI impI)
      fix i assume "i \<le> length (c # cs)"
      then show "\<not> prefix pat (drop i (c # cs))"
        using np r Cons.IH by (cases i) auto
    qed
  next
    assume a: "\<forall>i \<le> length (c # cs). \<not> prefix pat (drop i (c # cs))"
    from a [rule_format, of 0] have np: "\<not> prefix pat (c # cs)" by simp
    have "\<forall>i \<le> length cs. \<not> prefix pat (drop i cs)"
    proof (intro allI impI)
      fix i assume "i \<le> length cs"
      then show "\<not> prefix pat (drop i cs)" using a [rule_format, of "Suc i"] by simp
    qed
    then have "indexOf cs pat = - 1" using Cons.IH by simp
    then show "indexOf (c # cs) pat = - 1" using np by (simp add: Let_def)
  qed
qed

lemma indexOf_first:
  "indexOf s pat = int i \<longleftrightarrow>
     i \<le> length s \<and> prefix pat (drop i s) \<and> (\<forall>j < i. \<not> prefix pat (drop j s))"
proof (induction s arbitrary: i)
  case Nil
  then show ?case by auto
next
  case (Cons c cs)
  have ge: "- 1 \<le> indexOf cs pat" by (rule indexOf_ge)
  show ?case
  proof (cases "prefix pat (c # cs)")
    case True
    then have "indexOf (c # cs) pat = 0" by simp
    moreover have "(i \<le> length (c # cs) \<and> prefix pat (drop i (c # cs)) \<and>
        (\<forall>j < i. \<not> prefix pat (drop j (c # cs)))) \<longleftrightarrow> i = 0"
      using True by (cases i) auto
    ultimately show ?thesis by auto
  next
    case False
    show ?thesis
    proof (cases i)
      case 0
      then show ?thesis using False ge by (auto simp: Let_def)
    next
      case (Suc k)
      have "indexOf (c # cs) pat = int (Suc k) \<longleftrightarrow> indexOf cs pat = int k"
        using False ge by (auto simp: Let_def)
      also have "\<dots> \<longleftrightarrow> k \<le> length cs \<and> prefix pat (drop k cs) \<and>
          (\<forall>j < k. \<not> prefix pat (drop j cs))"
        by (rule Cons.IH)
      also have "\<dots> \<longleftrightarrow> Suc k \<le> length (c # cs) \<and> prefix pat (drop (Suc k) (c # cs)) \<and>
          (\<forall>j < Suc k. \<not> prefix pat (drop j (c # cs)))"
      proof -
        have "(\<forall>j < Suc k. \<not> prefix pat (drop j (c # cs))) \<longleftrightarrow>
            (\<forall>j < k. \<not> prefix pat (drop j cs))"
        proof
          assume h: "\<forall>j < Suc k. \<not> prefix pat (drop j (c # cs))"
          show "\<forall>j < k. \<not> prefix pat (drop j cs)"
          proof (intro allI impI)
            fix j assume "j < k"
            then show "\<not> prefix pat (drop j cs)" using h [rule_format, of "Suc j"] by simp
          qed
        next
          assume h: "\<forall>j < k. \<not> prefix pat (drop j cs)"
          show "\<forall>j < Suc k. \<not> prefix pat (drop j (c # cs))"
          proof (intro allI impI)
            fix j assume "j < Suc k"
            then show "\<not> prefix pat (drop j (c # cs))" using h False by (cases j) auto
          qed
        qed
        then show ?thesis by simp
      qed
      finally show ?thesis using Suc by simp
    qed
  qed
qed

lemma split_str_nonempty: "split_str s sep \<noteq> []"
  by (induction s) (auto split: list.splits)

lemma length_split_str: "length (split_str s sep) = Suc (length (filter (\<lambda>c. c = sep) s))"
  by (induction s) (auto split: list.splits simp: split_str_nonempty)

lemma substrFrom_nonneg: "0 \<le> k \<Longrightarrow> substrFrom s k = drop (nat k) s"
  by (auto simp: substrFrom_def substrStart_def Let_def min_def)

lemma removePrompt_at:
  assumes p: "prefix ''bashdb<'' line" and i: "indexOf line ''> '' = int i"
  shows "removePrompt line = drop (i + 2) line"
proof -
  have "indexOf line ''bashdb<'' = 0" using p by (simp add: indexOf_zero_iff)
  then have "removePrompt line = substrFrom line (int i + 2)"
    using i by (simp add: removePrompt_def)
  also have "\<dots> = drop (nat (int i + 2)) line" by (rule substrFrom_nonneg) simp
  also have "nat (int i + 2) = i + 2" by simp
  finally show ?thesis .
qed

lemma removePrompt_other: "\<not> prefix ''bashdb<'' line \<Longrightarrow> removePrompt line = line"
  by (simp add: removePrompt_def indexOf_zero_iff)

lemma onData_buffer:
  "fullDebugOutput (onData b d s) =
     butlast (fullDebugOutput s) @
     map removePrompt
       (((case fullDebugOutput s of [] \<Rightarrow> ''undefined'' | _ \<Rightarrow> last (fullDebugOutput s))
           @ hd (split_str d (CHR 0x0A))) # tl (split_str d (CHR 0x0A)))"
  by (simp add: onData_def Let_def sendEvent_def split: list.splits)

lemma length_onData:
  "length (fullDebugOutput (onData b d s)) =
     length (fullDebugOutput s) - 1 + length (split_str d (CHR 0x0A))"
proof -
  have "length (tl (split_str d (CHR 0x0A))) = length (split_str d (CHR 0x0A)) - 1" by simp
  moreover have "0 < length (split_str d (CHR 0x0A))" by (simp add: split_str_nonempty)
  ultimately show ?thesis by (simp add: onData_buffer)
qed

lemma run_append:
  "run s (es @ fs) = (case run s es of Inl err \<Rightarrow> Inl err | Inr s' \<Rightarrow> run s' fs)"
  by (induction es arbitrary: s) (auto split: sum.splits)

lemma run_FifoData:
  "run s (map (FifoData b) chunks) = Inr (foldl (\<lambda>s' c. onData b c s') s chunks)"
  by (induction chunks arbitrary: s) auto

lemma length_consume:
  "fullDebugOutput s \<noteq> [] \<Longrightarrow>
   length (fullDebugOutput (foldl (\<lambda>s' c. onData b c s') s chunks)) =
     length (fullDebugOutput s) + length (filter (\<lambda>c. c = CHR 0x0A) (concat chunks))"
proof (induction chunks arbitrary: s)
  case Nil
  then show ?case by simp
next
  case (Cons c cs)
  have len: "length (fullDebugOutput (onData b c s)) =
      length (fullDebugOutput s) + length (filter (\<lambda>x. x = CHR 0x0A) c)"
    using Cons.prems by (cases "fullDebugOutput s") (simp_all add: length_onData length_split_str)
  then have ne: "fullDebugOutput (onData b c s) \<noteq> []" using Cons.prems by auto
  show ?case using Cons.IH [OF ne] len by simp
qed

section \<open>Line reassembly\<close>

text \<open>
  Claim C3. Whatever way a stream of text is cut into chunks, once a fresh session has
  consumed all of them its line buffer has as many entries as the whole text has lines
  (the pieces between newlines): the listener joins the last buffered entry with the
  first piece of each chunk before it appends the others. The run of the session over
  the chunks does not throw.
\<close>

theorem line_reassembly:
  "\<exists>s'. run newSession (map (FifoData sendOutput) chunks) = Inr s' \<and>
        length (fullDebugOutput s') = length (split_str (concat chunks) (CHR 0x0A))"
proof -
  have "fullDebugOutput newSession \<noteq> []" by (simp add: newSession_def)
  then have "length (fullDebugOutput (foldl (\<lambda>s' c. onData sendOutput c s') newSession chunks)) =
      length (fullDebugOutput newSession) + length (filter (\<lambda>c. c = CHR 0x0A) (concat chunks))"
    by (rule length_consume)
  then show ?thesis by (simp add: run_FifoData length_split_str newSession_def)
qed

section \<open>What prompt stripping stores\<close>

text \<open>
  Claim C7. Every entry the listener puts into the buffer is \<open>removePrompt\<close> of a line
  (the joined line, or a further piece of the chunk). A line that begins with
  \<^verbatim>\<open>bashdb<\<close> and contains \<^verbatim>\<open>"> "\<close> is stored as what follows the first \<^verbatim>\<open>"> "\<close>; a line
  that does not begin with \<^verbatim>\<open>bashdb<\<close> is stored unchanged.
\<close>

theorem prompt_stripping:
  "fullDebugOutput (onData b d s) =
     butlast (fullDebugOutput s) @
     map removePrompt
       (((case fullDebugOutput s of [] \<Rightarrow> ''undefined'' | _ \<Rightarrow> last (fullDebugOutput s))
           @ hd (split_str d (CHR 0x0A))) # tl (split_str d (CHR 0x0A)))
   \<and> (prefix ''bashdb<'' line \<and> (\<exists>i \<le> length line. prefix ''> '' (drop i line)) \<longrightarrow>
        (\<exists>pre rest. line = pre @ ''> '' @ rest \<and>
            (\<forall>j < length pre. \<not> prefix ''> '' (drop j line)) \<and>
            removePrompt line = rest))
   \<and> (\<not> prefix ''bashdb<'' line \<longrightarrow> removePrompt line = line)"
proof (intro conjI impI)
  show "fullDebugOutput (onData b d s) =
     butlast (fullDebugOutput s) @
     map removePrompt
       (((case fullDebugOutput s of [] \<Rightarrow> ''undefined'' | _ \<Rightarrow> last (fullDebugOutput s))
           @ hd (split_str d (CHR 0x0A))) # tl (split_str d (CHR 0x0A)))"
    by (rule onData_buffer)
next
  assume a: "prefix ''bashdb<'' line \<and> (\<exists>i \<le> length line. prefix ''> '' (drop i line))"
  define P where "P = (\<lambda>i. i \<le> length line \<and> prefix ''> '' (drop i line))"
  from a have ex: "\<exists>i. P i" by (auto simp: P_def)
  define k where "k = (LEAST i. P i)"
  have Pk: "P k" unfolding k_def using ex by (auto intro: LeastI)
  have least: "\<And>j. j < k \<Longrightarrow> \<not> P j" unfolding k_def by (rule not_less_Least)
  have kle: "k \<le> length line" and pk: "prefix ''> '' (drop k line)" using Pk by (auto simp: P_def)
  have first: "\<forall>j < k. \<not> prefix ''> '' (drop j line)"
  proof (intro allI impI)
    fix j assume "j < k"
    then have "\<not> P j" and "j \<le> length line" using least kle by auto
    then show "\<not> prefix ''> '' (drop j line)" by (simp add: P_def)
  qed
  have idx: "indexOf line ''> '' = int k"
    using kle pk first by (simp add: indexOf_first)
  have rp: "removePrompt line = drop (k + 2) line"
    using a idx by (simp add: removePrompt_at)
  from pk obtain r where r: "drop k line = ''> '' @ r" by (auto simp: prefix_def)
  have "drop (k + 2) line = drop 2 (drop k line)" by (simp add: add.commute)
  then have dr: "drop (k + 2) line = r" using r by simp
  have "line = take k line @ drop k line" by simp
  then have dec: "line = take k line @ ''> '' @ r" using r by simp
  have len: "length (take k line) = k" using kle by simp
  show "\<exists>pre rest. line = pre @ ''> '' @ rest \<and>
            (\<forall>j < length pre. \<not> prefix ''> '' (drop j line)) \<and>
            removePrompt line = rest"
    using dec first len rp dr by (intro exI [of _ "take k line"] exI [of _ r]) simp
next
  assume "\<not> prefix ''bashdb<'' line"
  then show "removePrompt line = line" by (rule removePrompt_other)
qed

theorem prompt_stripping_witness:
  "prefix ''bashdb<'' ''bashdb<1> a > b'' \<and>
   prefix ''> '' (drop 8 ''bashdb<1> a > b'') \<and>
   (\<exists>pre rest. ''bashdb<1> a > b'' = pre @ ''> '' @ rest \<and>
       (\<forall>j < length pre. \<not> prefix ''> '' (drop j ''bashdb<1> a > b'')) \<and>
       removePrompt ''bashdb<1> a > b'' = rest) \<and>
   \<not> prefix ''bashdb<'' ''hello'' \<and>
   removePrompt ''hello'' = ''hello''"
proof -
  have p: "prefix ''bashdb<'' ''bashdb<1> a > b''" by simp
  have d: "prefix ''> '' (drop 8 ''bashdb<1> a > b'')" by simp
  then have e: "\<exists>i \<le> length ''bashdb<1> a > b''. prefix ''> '' (drop i ''bashdb<1> a > b'')"
    by (intro exI [of _ 8]) simp
  have n: "\<not> prefix ''bashdb<'' ''hello''" by simp
  have one: "\<exists>pre rest. ''bashdb<1> a > b'' = pre @ ''> '' @ rest \<and>
       (\<forall>j < length pre. \<not> prefix ''> '' (drop j ''bashdb<1> a > b'')) \<and>
       removePrompt ''bashdb<1> a > b'' = rest"
    using prompt_stripping [of False "[]" newSession "''bashdb<1> a > b''"] p e by blast
  have two: "removePrompt ''hello'' = ''hello''"
    using prompt_stripping [of False "[]" newSession "''hello''"] n by blast
  show ?thesis using p d one n two by blast
qed

text \<open>
  Claim C9. A line that begins with \<^verbatim>\<open>bashdb<\<close> and contains no \<^verbatim>\<open>"> "\<close> loses exactly
  its first character: the position of the absent \<^verbatim>\<open>"> "\<close> is \<open>-1\<close>, and the result is
  the line from position \<open>1\<close> on.
\<close>

theorem prompt_without_close:
  assumes "prefix ''bashdb<'' line" and "\<forall>i \<le> length line. \<not> prefix ''> '' (drop i line)"
  shows "removePrompt line = drop 1 line"
proof -
  have z: "indexOf line ''bashdb<'' = 0" using assms(1) by (simp add: indexOf_zero_iff)
  have m: "indexOf line ''> '' = - 1" using assms(2) by (simp add: indexOf_absent)
  have "removePrompt line = substrFrom line 1" using z m by (simp add: removePrompt_def)
  also have "\<dots> = drop 1 line" using substrFrom_nonneg [of 1 line] by simp
  finally show ?thesis .
qed

theorem prompt_without_close_witness:
  "prefix ''bashdb<'' ''bashdb<1>'' \<and>
   indexOf ''bashdb<1>'' ''> '' = - 1 \<and>
   removePrompt ''bashdb<1>'' = ''ashdb<1>''"
proof -
  have p: "prefix ''bashdb<'' ''bashdb<1>''" by simp
  have i: "indexOf ''bashdb<1>'' ''> '' = - 1" by simp
  then have a: "\<forall>i \<le> length ''bashdb<1>''. \<not> prefix ''> '' (drop i ''bashdb<1>'')"
    by (simp only: indexOf_absent)
  have "removePrompt ''bashdb<1>'' = drop 1 ''bashdb<1>''"
    using p a by (rule prompt_without_close)
  then show ?thesis using p i by simp
qed

section \<open>When a command is judged complete\<close>

lemma promptReached_iff:
  "promptReached s n \<longleftrightarrow>
     n < length (fullDebugOutput s) \<and> 2 \<le> length (fullDebugOutput s) \<and>
     fullDebugOutput s ! (length (fullDebugOutput s) - 2) = END_MARKER"
proof (cases "2 \<le> length (fullDebugOutput s)")
  case True
  then have "nat (int (length (fullDebugOutput s)) - 2) = length (fullDebugOutput s) - 2"
    by simp
  then show ?thesis using True by (auto simp: promptReached_def jsIndex_def)
next
  case False
  then show ?thesis by (auto simp: promptReached_def jsIndex_def)
qed

lemma promptReached_frame:
  "fullDebugOutput s' = fullDebugOutput s \<Longrightarrow> promptReached s' n = promptReached s n"
  by (simp add: promptReached_def)

text \<open>
  Claim C1, as amended. A command with high-water mark \<open>n\<close> is judged complete exactly
  when the buffer has more than \<open>n\<close> entries and its second-to-last entry is the
  sentinel. If \<open>n\<close> is the length of the buffer at submission and the last entry buffered
  then is not itself the sentinel, then the detector does not fire at submission, does
  not fire after the sentinel line is appended, and fires after a prompt line is
  appended behind it.
\<close>

theorem completion_detection:
  "(promptReached s n \<longleftrightarrow>
      n < length (fullDebugOutput s) \<and> 2 \<le> length (fullDebugOutput s) \<and>
      fullDebugOutput s ! (length (fullDebugOutput s) - 2) = END_MARKER)
   \<and> (length (fullDebugOutput s) = n \<and>
        (fullDebugOutput s = [] \<or> last (fullDebugOutput s) \<noteq> END_MARKER) \<longrightarrow>
        \<not> promptReached s n \<and>
        \<not> promptReached (s\<lparr>fullDebugOutput := fullDebugOutput s @ [END_MARKER]\<rparr>) n \<and>
        promptReached (s\<lparr>fullDebugOutput := fullDebugOutput s @ [END_MARKER, prompt]\<rparr>) n)"
proof (intro conjI impI)
  show "promptReached s n \<longleftrightarrow>
      n < length (fullDebugOutput s) \<and> 2 \<le> length (fullDebugOutput s) \<and>
      fullDebugOutput s ! (length (fullDebugOutput s) - 2) = END_MARKER"
    by (rule promptReached_iff)
next
  assume a: "length (fullDebugOutput s) = n \<and>
        (fullDebugOutput s = [] \<or> last (fullDebugOutput s) \<noteq> END_MARKER)"
  then show "\<not> promptReached s n" by (simp add: promptReached_iff)
  show "\<not> promptReached (s\<lparr>fullDebugOutput := fullDebugOutput s @ [END_MARKER]\<rparr>) n"
  proof (cases "fullDebugOutput s = []")
    case True
    then show ?thesis by (simp add: promptReached_iff)
  next
    case False
    then have "(fullDebugOutput s @ [END_MARKER]) ! (length (fullDebugOutput s) - 1) =
        last (fullDebugOutput s)"
      by (simp add: nth_append last_conv_nth)
    then show ?thesis using a False by (simp add: promptReached_iff)
  qed
  show "promptReached (s\<lparr>fullDebugOutput := fullDebugOutput s @ [END_MARKER, prompt]\<rparr>) n"
    using a by (simp add: promptReached_iff nth_append)
qed

theorem completion_detection_witness:
  "length (fullDebugOutput newSession) = 1 \<and>
   last (fullDebugOutput newSession) \<noteq> END_MARKER \<and>
   \<not> promptReached newSession 1 \<and>
   \<not> promptReached (newSession\<lparr>fullDebugOutput := fullDebugOutput newSession @ [END_MARKER]\<rparr>) 1 \<and>
   promptReached
     (newSession\<lparr>fullDebugOutput := fullDebugOutput newSession @ [END_MARKER, []]\<rparr>) 1"
proof -
  have l: "length (fullDebugOutput newSession) = 1" by (simp add: newSession_def)
  have m: "last (fullDebugOutput newSession) \<noteq> END_MARKER"
    by (simp add: newSession_def END_MARKER_def)
  show ?thesis
    using l m completion_detection [of newSession 1 "[]"] by blast
qed

text \<open>
  The claim as it is stated does not hold when the last entry buffered at submission is
  the sentinel: the detector then fires as soon as the sentinel line is appended, before
  any prompt line. Such a buffer arises when the sentinel of the launch has arrived
  without its newline; the listener then produces the buffer below from the text of a
  newline and a sentinel.
\<close>

theorem completion_detection_counterexample:
  "length [END_MARKER] = 1 \<and>
   promptReached (newSession\<lparr>fullDebugOutput := [END_MARKER] @ [END_MARKER]\<rparr>) 1 \<and>
   fullDebugOutput (onData False (nl @ END_MARKER) (newSession\<lparr>fullDebugOutput := [END_MARKER]\<rparr>))
     = [END_MARKER] @ [END_MARKER]"
  by (simp add: promptReached_iff onData_buffer nl_def END_MARKER_def removePrompt_def)

section \<open>The variables request\<close>

lemma variablesRequest_free:
  "\<not> debuggerExecutableBusy s \<Longrightarrow>
   childStdin (variablesRequest r s) = childStdin s @ [getVariablesCommand @ printEndMarker]"
  by (simp add: variablesRequest_def scheduleExecution_def stdinWrite_def Let_def)

lemma variablesRequest_busy:
  "debuggerExecutableBusy s \<Longrightarrow> childStdin (variablesRequest r s) = childStdin s"
  by (simp add: variablesRequest_def scheduleExecution_def)

text \<open>
  Claim C8, as amended. A variables request that the gate admits writes one fixed text,
  whatever the request and the session: \<^verbatim>\<open>info program\<close>, then for each of the names
  \<^verbatim>\<open>PWD\<close> (the working directory), \<^verbatim>\<open>?\<close> (the exit status) and \<^verbatim>\<open>0\<close> to \<^verbatim>\<open>9\<close> (the script
  name and the positional parameters), in this order, a marker print and an
  \<^verbatim>\<open>examine\<close> of the name, and then the sentinel print. A request that finds the gate
  busy writes nothing. The handler reads none of the request's arguments.
\<close>

theorem variables_coverage:
  "variableNames =
     [''PWD'', ''?'', ''0'', ''1'', ''2'', ''3''] @ [''4'', ''5'', ''6'', ''7'', ''8'', ''9'']
   \<and> getVariablesCommand =
       ''info program'' @ nl @
       concat (map (\<lambda>v. ''print '' @ sq @ '' <$'' @ v @ ''> '' @ sq @ nl @
                         ''examine $'' @ v @ nl) variableNames)
   \<and> (if debuggerExecutableBusy s
       then childStdin (variablesRequest r s) = childStdin s
       else childStdin (variablesRequest r s) =
              childStdin s @ [getVariablesCommand @ printEndMarker])"
  by (simp add: variableNames_def getVariablesCommand_def variablesRequest_free
      variablesRequest_busy)

text \<open>
  The claim as it is stated counts the process id among the names. The text written
  mentions no name with \<^verbatim>\<open>PID\<close> in it, nor \<^verbatim>\<open>$$\<close>, nor \<^verbatim>\<open>$!\<close>.
\<close>

theorem variables_coverage_counterexample:
  "''$'' \<notin> set variableNames \<and>
   indexOf getVariablesCommand ''PID'' = - 1 \<and>
   indexOf getVariablesCommand ''$$'' = - 1 \<and>
   indexOf getVariablesCommand ''$!'' = - 1"
  by code_simp

theorem variables_coverage_witness:
  "\<not> debuggerExecutableBusy newSession \<and>
   childStdin (variablesRequest (newResponse 1) newSession) =
     [getVariablesCommand @ printEndMarker] \<and>
   childStdin (variablesRequest (newResponse 2) (variablesRequest (newResponse 1) newSession)) =
     [getVariablesCommand @ printEndMarker]"
proof -
  have f: "\<not> debuggerExecutableBusy newSession" by (simp add: newSession_def)
  have e: "childStdin newSession = []" by (simp add: newSession_def)
  have one: "childStdin (variablesRequest (newResponse 1) newSession) =
      [getVariablesCommand @ printEndMarker]"
    using f e variables_coverage [of newSession "newResponse 1"] by simp
  have b: "debuggerExecutableBusy (variablesRequest (newResponse 1) newSession)"
    using f by (simp add: variablesRequest_def scheduleExecution_def stdinWrite_def Let_def)
  have two: "childStdin (variablesRequest (newResponse 2) (variablesRequest (newResponse 1) newSession)) =
      childStdin (variablesRequest (newResponse 1) newSession)"
    using b variables_coverage [of "variablesRequest (newResponse 1) newSession" "newResponse 2"]
    by simp
  show ?thesis using f one two by simp
qed

section \<open>Continue and the steps acknowledge at once\<close>

lemma continueRequest_free:
  "\<not> debuggerExecutableBusy s \<Longrightarrow>
   outbox (continueRequest r s) = outbox s @ [SentResponse r] \<and>
   childStdin (continueRequest r s) =
     childStdin s @ [''print continue'' @ nl @ ''continue'' @ nl @ printEndMarker] \<and>
   debuggerExecutableBusy (continueRequest r s) \<and>
   fullDebugOutput (continueRequest r s) = fullDebugOutput s \<and>
   timeouts (continueRequest r s) =
     timeouts s @ (if debuggerExecutableClosing s then []
                   else [CB_continueRequestFinalize r (length (fullDebugOutput s))])"
  by (simp add: continueRequest_def scheduleExecution_def stdinWrite_def sendResponse_def Let_def)

lemma nextRequest_free:
  "\<not> debuggerExecutableBusy s \<Longrightarrow>
   outbox (nextRequest r s) = outbox s @ [SentResponse r] \<and>
   childStdin (nextRequest r s) =
     childStdin s @ [''print next'' @ nl @ ''next'' @ nl @ printEndMarker] \<and>
   debuggerExecutableBusy (nextRequest r s) \<and>
   fullDebugOutput (nextRequest r s) = fullDebugOutput s \<and>
   timeouts (nextRequest r s) =
     timeouts s @ (if debuggerExecutableClosing s then []
                   else [CB_nextRequestFinalize r (length (fullDebugOutput s))])"
  by (simp add: nextRequest_def scheduleExecution_def stdinWrite_def sendResponse_def Let_def)

lemma stepInRequest_free:
  "\<not> debuggerExecutableBusy s \<Longrightarrow>
   outbox (stepInRequest r s) = outbox s @ [SentResponse r] \<and>
   childStdin (stepInRequest r s) =
     childStdin s @ [''print step'' @ nl @ ''step'' @ nl @ printEndMarker] \<and>
   debuggerExecutableBusy (stepInRequest r s) \<and>
   fullDebugOutput (stepInRequest r s) = fullDebugOutput s \<and>
   timeouts (stepInRequest r s) =
     timeouts s @ (if debuggerExecutableClosing s then []
                   else [CB_stepInRequestFinalize r (length (fullDebugOutput s))])"
  by (simp add: stepInRequest_def scheduleExecution_def stdinWrite_def sendResponse_def Let_def)

lemma stepOutRequest_free:
  "\<not> debuggerExecutableBusy s \<Longrightarrow>
   outbox (stepOutRequest r s) = outbox s @ [SentResponse r] \<and>
   childStdin (stepOutRequest r s) =
     childStdin s @ [''print finish'' @ nl @ ''finish'' @ nl @ printEndMarker] \<and>
   debuggerExecutableBusy (stepOutRequest r s) \<and>
   fullDebugOutput (stepOutRequest r s) = fullDebugOutput s \<and>
   timeouts (stepOutRequest r s) =
     timeouts s @ (if debuggerExecutableClosing s then []
                   else [CB_stepOutRequestFinalize r (length (fullDebugOutput s))])"
  by (simp add: stepOutRequest_def scheduleExecution_def stdinWrite_def sendResponse_def Let_def)

lemma stepFinalize_outbox:
  "outbox (continueRequestFinalize r n s) = outbox s"
  "outbox (nextRequestFinalize r n s) = outbox s"
  "outbox (stepInRequestFinalize r n s) = outbox s"
  "outbox (stepOutRequestFinalize r n s) = outbox s"
  by (simp_all add: continueRequestFinalize_def nextRequestFinalize_def
      stepInRequestFinalize_def stepOutRequestFinalize_def scheduleExecution_def)

lemma stepFinalize_busy:
  "debuggerExecutableBusy (continueRequestFinalize r n s) \<longleftrightarrow>
     debuggerExecutableBusy s \<and> \<not> promptReached s n"
  "debuggerExecutableBusy (nextRequestFinalize r n s) \<longleftrightarrow>
     debuggerExecutableBusy s \<and> \<not> promptReached s n"
  "debuggerExecutableBusy (stepInRequestFinalize r n s) \<longleftrightarrow>
     debuggerExecutableBusy s \<and> \<not> promptReached s n"
  "debuggerExecutableBusy (stepOutRequestFinalize r n s) \<longleftrightarrow>
     debuggerExecutableBusy s \<and> \<not> promptReached s n"
  by (simp_all add: continueRequestFinalize_def nextRequestFinalize_def
      stepInRequestFinalize_def stepOutRequestFinalize_def scheduleExecution_def)

lemma not_reached_at_length:
  "fullDebugOutput s' = fullDebugOutput s \<Longrightarrow>
   \<not> promptReached s' (length (fullDebugOutput s))"
  by (simp add: promptReached_def)

text \<open>
  Claim C6. When the gate admits a continue, next, step-in or step-out request, the one
  invocation of the handler writes the command, sets the busy flag, leaves the poller in
  the timeout queue and hands the response to the protocol library. At that point the
  detector cannot hold for the command's high-water mark. Completion is detected only
  by the poller, in a later callback, which sends nothing and clears the busy flag
  exactly when the detector holds.
\<close>

theorem step_acknowledgment:
  "(\<not> debuggerExecutableBusy s \<longrightarrow>
      outbox (continueRequest r s) = outbox s @ [SentResponse r] \<and>
      childStdin (continueRequest r s) =
        childStdin s @ [''print continue'' @ nl @ ''continue'' @ nl @ printEndMarker] \<and>
      debuggerExecutableBusy (continueRequest r s) \<and>
      \<not> promptReached (continueRequest r s) (length (fullDebugOutput s)) \<and>
      timeouts (continueRequest r s) =
        timeouts s @ (if debuggerExecutableClosing s then []
                      else [CB_continueRequestFinalize r (length (fullDebugOutput s))]))
   \<and> (\<not> debuggerExecutableBusy s \<longrightarrow>
      outbox (nextRequest r s) = outbox s @ [SentResponse r] \<and>
      childStdin (nextRequest r s) =
        childStdin s @ [''print next'' @ nl @ ''next'' @ nl @ printEndMarker] \<and>
      debuggerExecutableBusy (nextRequest r s) \<and>
      \<not> promptReached (nextRequest r s) (length (fullDebugOutput s)) \<and>
      timeouts (nextRequest r s) =
        timeouts s @ (if debuggerExecutableClosing s then []
                      else [CB_nextRequestFinalize r (length (fullDebugOutput s))]))
   \<and> (\<not> debuggerExecutableBusy s \<longrightarrow>
      outbox (stepInRequest r s) = outbox s @ [SentResponse r] \<and>
      childStdin (stepInRequest r s) =
        childStdin s @ [''print step'' @ nl @ ''step'' @ nl @ printEndMarker] \<and>
      debuggerExecutableBusy (stepInRequest r s) \<and>
      \<not> promptReached (stepInRequest r s) (length (fullDebugOutput s)) \<and>
      timeouts (stepInRequest r s) =
        timeouts s @ (if debuggerExecutableClosing s then []
                      else [CB_stepInRequestFinalize r (length (fullDebugOutput s))]))
   \<and> (\<not> debuggerExecutableBusy s \<longrightarrow>
      outbox (stepOutRequest r s) = outbox s @ [SentResponse r] \<and>
      childStdin (stepOutRequest r s) =
        childStdin s @ [''print finish'' @ nl @ ''finish'' @ nl @ printEndMarker] \<and>
      debuggerExecutableBusy (stepOutRequest r s) \<and>
      \<not> promptReached (stepOutRequest r s) (length (fullDebugOutput s)) \<and>
      timeouts (stepOutRequest r s) =
        timeouts s @ (if debuggerExecutableClosing s then []
                      else [CB_stepOutRequestFinalize r (length (fullDebugOutput s))]))
   \<and> outbox (continueRequestFinalize r n s) = outbox s
   \<and> outbox (nextRequestFinalize r n s) = outbox s
   \<and> outbox (stepInRequestFinalize r n s) = outbox s
   \<and> outbox (stepOutRequestFinalize r n s) = outbox s
   \<and> (debuggerExecutableBusy (continueRequestFinalize r n s) \<longleftrightarrow>
        debuggerExecutableBusy s \<and> \<not> promptReached s n)
   \<and> (debuggerExecutableBusy (nextRequestFinalize r n s) \<longleftrightarrow>
        debuggerExecutableBusy s \<and> \<not> promptReached s n)
   \<and> (debuggerExecutableBusy (stepInRequestFinalize r n s) \<longleftrightarrow>
        debuggerExecutableBusy s \<and> \<not> promptReached s n)
   \<and> (debuggerExecutableBusy (stepOutRequestFinalize r n s) \<longleftrightarrow>
        debuggerExecutableBusy s \<and> \<not> promptReached s n)"
proof -
  have a: "\<not> promptReached (continueRequest r s) (length (fullDebugOutput s))"
    if "\<not> debuggerExecutableBusy s"
    using that by (intro not_reached_at_length) (simp add: continueRequest_free)
  have b: "\<not> promptReached (nextRequest r s) (length (fullDebugOutput s))"
    if "\<not> debuggerExecutableBusy s"
    using that by (intro not_reached_at_length) (simp add: nextRequest_free)
  have c: "\<not> promptReached (stepInRequest r s) (length (fullDebugOutput s))"
    if "\<not> debuggerExecutableBusy s"
    using that by (intro not_reached_at_length) (simp add: stepInRequest_free)
  have d: "\<not> promptReached (stepOutRequest r s) (length (fullDebugOutput s))"
    if "\<not> debuggerExecutableBusy s"
    using that by (intro not_reached_at_length) (simp add: stepOutRequest_free)
  show ?thesis
    using a b c d
    by (simp add: continueRequest_free nextRequest_free stepInRequest_free stepOutRequest_free
        stepFinalize_outbox stepFinalize_busy)
qed

theorem step_acknowledgment_witness:
  "\<not> debuggerExecutableBusy newSession \<and>
   outbox (continueRequest (newResponse 1) newSession) = [SentResponse (newResponse 1)] \<and>
   childStdin (nextRequest (newResponse 1) newSession) =
     [''print next'' @ nl @ ''next'' @ nl @ printEndMarker] \<and>
   timeouts (stepInRequest (newResponse 1) newSession) =
     [CB_stepInRequestFinalize (newResponse 1) 1] \<and>
   debuggerExecutableBusy (stepOutRequest (newResponse 1) newSession)"
proof -
  have f: "\<not> debuggerExecutableBusy newSession" by (simp add: newSession_def)
  have v: "outbox newSession = [] \<and> childStdin newSession = [] \<and> timeouts newSession = [] \<and>
      \<not> debuggerExecutableClosing newSession \<and> length (fullDebugOutput newSession) = 1"
    by (simp add: newSession_def)
  show ?thesis
    using f v step_acknowledgment [of newSession "newResponse 1" 0] by simp
qed

section \<open>Set-breakpoints: the ledger and the responses\<close>

lemma jsIndex_in: "i < length xs \<Longrightarrow> jsIndex xs (int i) = Some (xs ! i)"
  by (simp add: jsIndex_def)

lemma jsIndex_pred:
  "1 \<le> i \<Longrightarrow> i \<le> length xs \<Longrightarrow> jsIndex xs (int i - 1) = Some (xs ! (i - 1))"
proof -
  assume a: "1 \<le> i" "i \<le> length xs"
  then have "nat (int i - 1) = i - 1" by simp
  then show ?thesis using a by (auto simp: jsIndex_def)
qed

lemma breakpointLoop_closed:
  "\<forall>i \<in> set idxs. 1 \<le> i \<and> i < length (fullDebugOutput s) \<Longrightarrow>
   breakpointLoop s idxs acc =
     Inr (acc @ map (\<lambda>i. parseBreakpoint s (fullDebugOutput s ! i))
                  (filter (\<lambda>i. isMarkerLine (fullDebugOutput s ! (i - 1))) idxs))"
proof (induction idxs arbitrary: acc)
  case Nil
  then show ?case by simp
next
  case (Cons i rest)
  then have i: "1 \<le> i" "i < length (fullDebugOutput s)" by auto
  have r: "\<forall>j \<in> set rest. 1 \<le> j \<and> j < length (fullDebugOutput s)" using Cons.prems by auto
  have p: "jsIndex (fullDebugOutput s) (int i - 1) = Some (fullDebugOutput s ! (i - 1))"
    using i by (intro jsIndex_pred) auto
  have c: "jsIndex (fullDebugOutput s) (int i) = Some (fullDebugOutput s ! i)"
    using i by (intro jsIndex_in)
  show ?case using Cons.IH [OF r] p c by simp
qed

lemma parseBreakpoint_id:
  "bp_id (parseBreakpoint s line) = parseIntOpt (jsIndex (split_str line (CHR '' '')) 1)"
  by (simp add: parseBreakpoint_def Let_def)

lemma promptReached_sendResponse: "promptReached (sendResponse r s) n = promptReached s n"
  by (simp add: promptReached_def sendResponse_def)

lemma setBreakPointsRequestFinalize_waiting:
  "\<not> promptReached s n \<Longrightarrow>
   setBreakPointsRequestFinalize r a n s =
     Inr (scheduleExecution (CB_setBreakPointsRequestFinalize r a n) (sendResponse r s))"
  by (simp add: setBreakPointsRequestFinalize_def Let_def promptReached_sendResponse)

lemma setBreakPointsRequestFinalize_done:
  assumes reached: "promptReached s n" and n: "1 \<le> n"
  shows "setBreakPointsRequestFinalize r a n s =
     Inr (s\<lparr> outbox := outbox s @
                [SentResponse r,
                 SentResponse (r\<lparr>body := Some (SetBreakpointsBody
                   (map (\<lambda>i. parseBreakpoint s (fullDebugOutput s ! i))
                     (filter (\<lambda>i. isMarkerLine (fullDebugOutput s ! (i - 1)))
                        [n ..< length (fullDebugOutput s) - 2])))\<rparr>)],
              currentBreakpointIds := (currentBreakpointIds s)(source_path a \<mapsto>
                map (\<lambda>i. parseIntOpt (jsIndex (split_str (fullDebugOutput s ! i) (CHR '' '')) 1))
                  (filter (\<lambda>i. isMarkerLine (fullDebugOutput s ! (i - 1)))
                     [n ..< length (fullDebugOutput s) - 2])),
              debuggerExecutableBusy := False \<rparr>)"
proof -
  let ?s0 = "sendResponse r s"
  have buf: "fullDebugOutput ?s0 = fullDebugOutput s" by (simp add: sendResponse_def)
  have pr: "promptReached ?s0 n" using reached buf by (simp add: promptReached_def)
  have rng: "\<forall>i \<in> set [n ..< length (fullDebugOutput ?s0) - 2].
      1 \<le> i \<and> i < length (fullDebugOutput ?s0)"
    using n by auto
  have pb: "parseBreakpoint ?s0 = parseBreakpoint s"
    by (simp add: fun_eq_iff parseBreakpoint_def convertDebuggerLineToClient_def sendResponse_def)
  have loop: "breakpointLoop ?s0 [n ..< length (fullDebugOutput ?s0) - 2] [] =
      Inr (map (\<lambda>i. parseBreakpoint s (fullDebugOutput s ! i))
             (filter (\<lambda>i. isMarkerLine (fullDebugOutput s ! (i - 1)))
                [n ..< length (fullDebugOutput s) - 2]))"
    using breakpointLoop_closed [OF rng, of "[]"] by (simp add: buf pb)
  show ?thesis
    unfolding setBreakPointsRequestFinalize_def Let_def
    using pr loop
    by (simp add: buf sendResponse_def comp_def parseBreakpoint_id)
qed

text \<open>
  Claim C4. When the poller of a set-breakpoints request for a file detects completion
  (its high-water mark being the length of a buffer, which is never empty), it does not
  throw, and afterwards the ledger entry of that file is exactly the list of ids parsed
  from the captured lines: for every line from the high-water mark up to the sentinel
  whose preceding line has the shape of a marker, the number read from its second
  word. The entry does not depend on what the ledger held before; the entries of other
  files are untouched.
\<close>

theorem ledger_replacement:
  "promptReached s n \<and> 1 \<le> n \<longrightarrow>
     (\<exists>s'. setBreakPointsRequestFinalize r a n s = Inr s' \<and>
        currentBreakpointIds s' (source_path a) =
          Some (map (\<lambda>i. parseIntOpt (jsIndex (split_str (fullDebugOutput s ! i) (CHR '' '')) 1))
                  (filter (\<lambda>i. isMarkerLine (fullDebugOutput s ! (i - 1)))
                     [n ..< length (fullDebugOutput s) - 2])) \<and>
        (\<forall>p. p \<noteq> source_path a \<longrightarrow> currentBreakpointIds s' p = currentBreakpointIds s p))"
proof
  assume "promptReached s n \<and> 1 \<le> n"
  then have "promptReached s n" and "1 \<le> n" by auto
  from setBreakPointsRequestFinalize_done [OF this, of r a]
  show "\<exists>s'. setBreakPointsRequestFinalize r a n s = Inr s' \<and>
        currentBreakpointIds s' (source_path a) =
          Some (map (\<lambda>i. parseIntOpt (jsIndex (split_str (fullDebugOutput s ! i) (CHR '' '')) 1))
                  (filter (\<lambda>i. isMarkerLine (fullDebugOutput s ! (i - 1)))
                     [n ..< length (fullDebugOutput s) - 2])) \<and>
        (\<forall>p. p \<noteq> source_path a \<longrightarrow> currentBreakpointIds s' p = currentBreakpointIds s p)"
    by simp
qed

theorem ledger_replacement_witness:
  "promptReached exampleSession 1 \<and>
   currentBreakpointIds exampleSession ''/s.sh'' = Some [Some 7, Some 8] \<and>
   (\<exists>s'. setBreakPointsRequestFinalize (newResponse 4) exampleArguments 1 exampleSession = Inr s' \<and>
         currentBreakpointIds s' ''/s.sh'' = Some [Some 1, Some 2])"
proof -
  have p: "promptReached exampleSession 1" by code_simp
  have old: "currentBreakpointIds exampleSession ''/s.sh'' = Some [Some 7, Some 8]"
    by code_simp
  have path: "source_path exampleArguments = ''/s.sh''" by (simp add: exampleArguments_def)
  have ids: "map (\<lambda>i. parseIntOpt (jsIndex (split_str (fullDebugOutput exampleSession ! i) (CHR '' '')) 1))
      (filter (\<lambda>i. isMarkerLine (fullDebugOutput exampleSession ! (i - 1)))
         [1 ..< length (fullDebugOutput exampleSession) - 2]) = [Some 1, Some 2]"
    by code_simp
  have "\<exists>s'. setBreakPointsRequestFinalize (newResponse 4) exampleArguments 1 exampleSession = Inr s' \<and>
         currentBreakpointIds s' ''/s.sh'' = Some [Some 1, Some 2]"
    using p ids path
      ledger_replacement [of exampleSession 1 "newResponse 4" exampleArguments]
    by auto
  then show ?thesis using p old by simp
qed

lemma poll_once:
  assumes w: "\<not> promptReached s n" and c: "\<not> debuggerExecutableClosing s"
    and t: "timeouts s = [CB_setBreakPointsRequestFinalize r a n]"
  shows "step s Timeout = Inr (s\<lparr>outbox := outbox s @ [SentResponse r]\<rparr>)"
proof -
  have w': "\<not> promptReached (s\<lparr>timeouts := []\<rparr>) n" using w by (simp add: promptReached_def)
  have "step s Timeout = setBreakPointsRequestFinalize r a n (s\<lparr>timeouts := []\<rparr>)"
    using t by simp
  also have "\<dots> = Inr (scheduleExecution (CB_setBreakPointsRequestFinalize r a n)
      (sendResponse r (s\<lparr>timeouts := []\<rparr>)))"
    using w' by (rule setBreakPointsRequestFinalize_waiting)
  also have "scheduleExecution (CB_setBreakPointsRequestFinalize r a n)
      (sendResponse r (s\<lparr>timeouts := []\<rparr>)) = s\<lparr>outbox := outbox s @ [SentResponse r]\<rparr>"
    using c t by (cases s) (simp add: scheduleExecution_def sendResponse_def)
  finally show ?thesis .
qed

lemma poll_many:
  assumes w: "\<not> promptReached s n" and c: "\<not> debuggerExecutableClosing s"
    and t: "timeouts s = [CB_setBreakPointsRequestFinalize r a n]"
  shows "run s (replicate k Timeout) =
     Inr (s\<lparr>outbox := outbox s @ replicate k (SentResponse r)\<rparr>)"
  using assms
proof (induction k arbitrary: s)
  case 0
  then show ?case by simp
next
  case (Suc k)
  let ?s1 = "s\<lparr>outbox := outbox s @ [SentResponse r]\<rparr>"
  have s1: "step s Timeout = Inr ?s1" using Suc.prems by (rule poll_once)
  have w1: "\<not> promptReached ?s1 n" using Suc.prems(1) by (simp add: promptReached_def)
  have "run ?s1 (replicate k Timeout) =
      Inr (?s1\<lparr>outbox := outbox ?s1 @ replicate k (SentResponse r)\<rparr>)"
    using w1 Suc.prems(2,3) by (intro Suc.IH) simp_all
  then show ?case using s1 by (simp add: replicate_append_same)
qed

lemma setBreakPointsRequestFinalize_outbox:
  assumes reached: "promptReached s n" and n: "1 \<le> n"
  shows "\<exists>s' bps. setBreakPointsRequestFinalize r a n s = Inr s' \<and>
      outbox s' = outbox s @
        [SentResponse r, SentResponse (r\<lparr>body := Some (SetBreakpointsBody bps)\<rparr>)]"
proof -
  let ?bps = "map (\<lambda>i. parseBreakpoint s (fullDebugOutput s ! i))
      (filter (\<lambda>i. isMarkerLine (fullDebugOutput s ! (i - 1)))
         [n ..< length (fullDebugOutput s) - 2])"
  from setBreakPointsRequestFinalize_done [OF reached n, of r a]
  obtain s' where f: "setBreakPointsRequestFinalize r a n s = Inr s'"
    and o: "outbox s' = outbox s @
        [SentResponse r, SentResponse (r\<lparr>body := Some (SetBreakpointsBody ?bps)\<rparr>)]"
    by simp
  then show ?thesis by blast
qed

text \<open>
  Claim C10. Every invocation of the set-breakpoints poller hands the response to
  \<^verbatim>\<open>sendResponse\<close> on entry, before it looks for completion; on completion it hands it
  over once more, now with the breakpoints as body. So when the poller is the only
  timeout waiting and the sentinel shows up only after \<open>k\<close> timeouts have passed,
  \<^verbatim>\<open>sendResponse\<close> is called \<open>k + 2\<close> times for the one request: \<open>k + 1\<close> times with
  the response as the handler received it and once with the body.
\<close>

theorem duplicate_response:
  "(\<not> promptReached s n \<longrightarrow>
      setBreakPointsRequestFinalize r a n s =
        Inr (scheduleExecution (CB_setBreakPointsRequestFinalize r a n) (sendResponse r s)))
   \<and> (promptReached s n \<and> 1 \<le> n \<longrightarrow>
        (\<exists>s' bps. setBreakPointsRequestFinalize r a n s = Inr s' \<and>
           outbox s' = outbox s @
             [SentResponse r, SentResponse (r\<lparr>body := Some (SetBreakpointsBody bps)\<rparr>)]))
   \<and> (1 \<le> n \<and> \<not> debuggerExecutableClosing s \<and>
        timeouts s = [CB_setBreakPointsRequestFinalize r a n] \<and>
        \<not> promptReached s n \<and> promptReached (onData False d s) n \<longrightarrow>
        (\<exists>s' bps. run s (replicate k Timeout @ [FifoData False d, Timeout]) = Inr s' \<and>
           outbox s' = outbox s @ replicate k (SentResponse r) @
             [SentResponse r, SentResponse (r\<lparr>body := Some (SetBreakpointsBody bps)\<rparr>)]))"
proof (intro conjI impI)
  assume "\<not> promptReached s n"
  then show "setBreakPointsRequestFinalize r a n s =
      Inr (scheduleExecution (CB_setBreakPointsRequestFinalize r a n) (sendResponse r s))"
    by (rule setBreakPointsRequestFinalize_waiting)
next
  assume "promptReached s n \<and> 1 \<le> n"
  then have "promptReached s n" and "1 \<le> n" by auto
  then show "\<exists>s' bps. setBreakPointsRequestFinalize r a n s = Inr s' \<and>
      outbox s' = outbox s @
        [SentResponse r, SentResponse (r\<lparr>body := Some (SetBreakpointsBody bps)\<rparr>)]"
    by (rule setBreakPointsRequestFinalize_outbox)
next
  assume a: "1 \<le> n \<and> \<not> debuggerExecutableClosing s \<and>
      timeouts s = [CB_setBreakPointsRequestFinalize r a n] \<and>
      \<not> promptReached s n \<and> promptReached (onData False d s) n"
  let ?sk = "s\<lparr>outbox := outbox s @ replicate k (SentResponse r)\<rparr>"
  let ?sd = "onData False d ?sk"
  let ?sr = "?sd\<lparr>timeouts := []\<rparr>"
  have k: "run s (replicate k Timeout) = Inr ?sk" using a by (intro poll_many) simp_all
  have bufd: "fullDebugOutput ?sd = fullDebugOutput (onData False d s)"
    by (simp add: onData_buffer split: list.splits)
  have td: "timeouts ?sd = [CB_setBreakPointsRequestFinalize r a n]"
    using a by (simp add: onData_def Let_def)
  have od: "outbox ?sd = outbox s @ replicate k (SentResponse r)"
    by (simp add: onData_def Let_def)
  have pr: "promptReached ?sr n" using a bufd by (simp add: promptReached_def)
  have n: "1 \<le> n" using a by simp
  from setBreakPointsRequestFinalize_outbox [OF pr n, of r a]
  obtain s' bps where fin: "setBreakPointsRequestFinalize r a n ?sr = Inr s'"
    and out: "outbox s' = outbox ?sr @
        [SentResponse r, SentResponse (r\<lparr>body := Some (SetBreakpointsBody bps)\<rparr>)]"
    by blast
  have "run s (replicate k Timeout @ [FifoData False d, Timeout]) = Inr s'"
    using k td fin by (simp add: run_append)
  moreover have "outbox s' = outbox s @ replicate k (SentResponse r) @
      [SentResponse r, SentResponse (r\<lparr>body := Some (SetBreakpointsBody bps)\<rparr>)]"
    using out od by simp
  ultimately show "\<exists>s' bps. run s (replicate k Timeout @ [FifoData False d, Timeout]) = Inr s' \<and>
      outbox s' = outbox s @ replicate k (SentResponse r) @
        [SentResponse r, SentResponse (r\<lparr>body := Some (SetBreakpointsBody bps)\<rparr>)]"
    by blast
qed

theorem duplicate_response_witness:
  "\<not> debuggerExecutableClosing exampleWaiting \<and>
   timeouts exampleWaiting = [CB_setBreakPointsRequestFinalize (newResponse 4) exampleArguments 1] \<and>
   \<not> promptReached exampleWaiting 1 \<and>
   promptReached (onData False exampleOutput exampleWaiting) 1 \<and>
   (\<exists>s' bps. run exampleWaiting [Timeout, Timeout, FifoData False exampleOutput, Timeout] = Inr s' \<and>
      outbox s' =
        [SentResponse (newResponse 4), SentResponse (newResponse 4), SentResponse (newResponse 4),
         SentResponse ((newResponse 4)\<lparr>body := Some (SetBreakpointsBody bps)\<rparr>)])"
proof -
  have c: "\<not> debuggerExecutableClosing exampleWaiting" by code_simp
  have t: "timeouts exampleWaiting =
      [CB_setBreakPointsRequestFinalize (newResponse 4) exampleArguments 1]"
    by code_simp
  have w: "\<not> promptReached exampleWaiting 1" by code_simp
  have p: "promptReached (onData False exampleOutput exampleWaiting) 1" by code_simp
  have o: "outbox exampleWaiting = []" by code_simp
  have k: "replicate 2 Timeout = [Timeout, Timeout]" by (simp add: numeral_2_eq_2)
  have "\<exists>s' bps. run exampleWaiting (replicate 2 Timeout @ [FifoData False exampleOutput, Timeout]) = Inr s' \<and>
      outbox s' = outbox exampleWaiting @ replicate 2 (SentResponse (newResponse 4)) @
        [SentResponse (newResponse 4),
         SentResponse ((newResponse 4)\<lparr>body := Some (SetBreakpointsBody bps)\<rparr>)]"
    using c t w p
      duplicate_response [of exampleWaiting 1 "newResponse 4" exampleArguments exampleOutput 2]
    by simp
  then show ?thesis using c t w p o by (simp add: numeral_2_eq_2)
qed

section \<open>After the child's exit\<close>

lemmas effect_defs = scheduleExecution_def sendResponse_def sendEvent_def stdinWrite_def

lemmas request_defs =
  setBreakPointsRequest_def stackTraceRequest_def variablesRequest_def continueRequest_def
  nextRequest_def stepInRequest_def stepOutRequest_def evaluateRequest_def

lemmas finalize_defs =
  setBreakPointsRequestFinalize_def stackTraceRequestFinalize_def variablesRequestFinalize_def
  continueRequestFinalize_def nextRequestFinalize_def stepInRequestFinalize_def
  stepOutRequestFinalize_def evaluateRequestFinalize_def launchRequestFinalize_def
  processDebugTerminalOutput_def

lemmas plain_defs =
  initializeRequest_def threadsRequest_def scopesRequest_def disconnectRequest_def
  onData_def onEnd_def onStdout_def onStderr_def onKillDone_def

lemma inspectLine_frame:
  "timeouts (inspectLine l s) = timeouts s"
  "debuggerExecutableClosing (inspectLine l s) = debuggerExecutableClosing s"
  "debuggerExecutableBusy (inspectLine l s) = debuggerExecutableBusy s"
  "childStdin (inspectLine l s) = childStdin s"
  "killCallbacks (inspectLine l s) = killCallbacks s"
  "fullDebugOutput (inspectLine l s) = fullDebugOutput s"
  by (simp_all add: inspectLine_def sendEvent_def)

lemma inspect_fold_frame:
  "timeouts (foldl (\<lambda>s' i. inspectLine (f i) s') s idxs) = timeouts s \<and>
   debuggerExecutableClosing (foldl (\<lambda>s' i. inspectLine (f i) s') s idxs) =
     debuggerExecutableClosing s \<and>
   debuggerExecutableBusy (foldl (\<lambda>s' i. inspectLine (f i) s') s idxs) =
     debuggerExecutableBusy s \<and>
   childStdin (foldl (\<lambda>s' i. inspectLine (f i) s') s idxs) = childStdin s \<and>
   killCallbacks (foldl (\<lambda>s' i. inspectLine (f i) s') s idxs) = killCallbacks s \<and>
   fullDebugOutput (foldl (\<lambda>s' i. inspectLine (f i) s') s idxs) = fullDebugOutput s"
  by (induction idxs arbitrary: s) (simp_all add: inspectLine_frame)

lemma onInterval_frame:
  "timeouts (onInterval s) = timeouts s"
  "debuggerExecutableClosing (onInterval s) = debuggerExecutableClosing s"
  "debuggerExecutableBusy (onInterval s) = debuggerExecutableBusy s"
  "childStdin (onInterval s) = childStdin s"
  "killCallbacks (onInterval s) = killCallbacks s"
  "fullDebugOutput (onInterval s) = fullDebugOutput s"
  by (simp_all add: onInterval_def Let_def inspect_fold_frame)

lemma exit_fold_frame:
  "timeouts (foldl (\<lambda>s' r. sendResponse r (s'\<lparr>debuggerExecutableClosing := True\<rparr>)) s rs) =
     timeouts s \<and>
   debuggerExecutableClosing
     (foldl (\<lambda>s' r. sendResponse r (s'\<lparr>debuggerExecutableClosing := True\<rparr>)) s rs) =
     (debuggerExecutableClosing s \<or> rs \<noteq> []) \<and>
   debuggerExecutableBusy
     (foldl (\<lambda>s' r. sendResponse r (s'\<lparr>debuggerExecutableClosing := True\<rparr>)) s rs) =
     debuggerExecutableBusy s \<and>
   childStdin (foldl (\<lambda>s' r. sendResponse r (s'\<lparr>debuggerExecutableClosing := True\<rparr>)) s rs) =
     childStdin s \<and>
   killCallbacks (foldl (\<lambda>s' r. sendResponse r (s'\<lparr>debuggerExecutableClosing := True\<rparr>)) s rs) =
     killCallbacks s \<and>
   fullDebugOutput (foldl (\<lambda>s' r. sendResponse r (s'\<lparr>debuggerExecutableClosing := True\<rparr>)) s rs) =
     fullDebugOutput s"
  by (induction rs arbitrary: s) (auto simp: sendResponse_def)

lemma onExit_frame:
  "timeouts (onExit s) = timeouts s"
  "debuggerExecutableClosing (onExit s) = (debuggerExecutableClosing s \<or> exitListeners s \<noteq> [])"
  "debuggerExecutableBusy (onExit s) = debuggerExecutableBusy s"
  "childStdin (onExit s) = childStdin s"
  "killCallbacks (onExit s) = killCallbacks s"
  "fullDebugOutput (onExit s) = fullDebugOutput s"
  by (simp_all add: onExit_def exit_fold_frame)

lemma closing_callback:
  "debuggerExecutableClosing s \<Longrightarrow> runCallback cb s = Inr s' \<Longrightarrow>
   debuggerExecutableClosing s' \<and> timeouts s' = timeouts s"
  by (cases cb)
     (auto simp: request_defs finalize_defs effect_defs Let_def split: sum.splits if_splits)

lemma closing_request:
  "debuggerExecutableClosing s \<Longrightarrow>
   debuggerExecutableClosing (dispatchRequest r q s) \<and>
   timeouts (dispatchRequest r q s) = timeouts s"
  by (cases q) (auto simp: request_defs plain_defs effect_defs Let_def)

lemma closing_step:
  assumes c: "debuggerExecutableClosing s" and st: "step s e = Inr s'"
  shows "debuggerExecutableClosing s' \<and>
         timeouts s' = (if e = Timeout then tl (timeouts s) else timeouts s)"
proof (cases e)
  case (Request seq q)
  then show ?thesis using c st closing_request [of s "newResponse seq" q] by auto
next
  case Timeout
  show ?thesis
  proof (cases "timeouts s")
    case Nil
    then show ?thesis using c st Timeout by auto
  next
    case (Cons cb rest)
    then have "runCallback cb (s\<lparr>timeouts := rest\<rparr>) = Inr s'" using st Timeout by simp
    moreover have "debuggerExecutableClosing (s\<lparr>timeouts := rest\<rparr>)" using c by simp
    ultimately have "debuggerExecutableClosing s' \<and> timeouts s' = timeouts (s\<lparr>timeouts := rest\<rparr>)"
      using closing_callback by blast
    then show ?thesis using Timeout Cons by simp
  qed
next
  case Interval
  then show ?thesis using c st by (auto simp: onInterval_frame)
next
  case ChildExit
  then show ?thesis using c st by (auto simp: onExit_frame)
qed (use c st in \<open>auto simp: plain_defs effect_defs Let_def\<close>)

lemma quiet_callback:
  "\<not> isRetry cb \<Longrightarrow> runCallback cb s = Inr s' \<Longrightarrow> childStdin s' = childStdin s"
  by (cases cb)
     (auto simp: finalize_defs effect_defs Let_def split: sum.splits if_splits)

lemma busy_retry:
  "isRetry cb \<Longrightarrow> debuggerExecutableBusy s \<Longrightarrow> debuggerExecutableClosing s \<Longrightarrow>
   runCallback cb s = Inr s"
  by (cases cb) (auto simp: request_defs effect_defs)

text \<open>
  Claim C5, as amended. The exit event of the child sets the closing flag when a
  disconnect request has installed its listener. From then on \<open>scheduleExecution\<close> does
  nothing: the flag stays set, no reaction of the session adds a timeout, and a timeout
  coming due only removes its callback from the queue, so each callback still waiting
  runs at most once and none reschedules itself. A waiting callback that is not a
  request offered again (a completion poller, the launch poller, the pipe poller) never
  writes to the child's input, and a request offered again while the busy flag is set
  does nothing at all.
\<close>

theorem quiescence_after_exit:
  "(exitListeners s \<noteq> [] \<longrightarrow> debuggerExecutableClosing (onExit s))
   \<and> (debuggerExecutableClosing s \<longrightarrow> scheduleExecution cb s = s)
   \<and> (debuggerExecutableClosing s \<and> step s e = Inr s' \<longrightarrow>
        debuggerExecutableClosing s' \<and>
        timeouts s' = (if e = Timeout then tl (timeouts s) else timeouts s))
   \<and> (\<not> isRetry cb \<and> runCallback cb s = Inr s' \<longrightarrow> childStdin s' = childStdin s)
   \<and> (isRetry cb \<and> debuggerExecutableBusy s \<and> debuggerExecutableClosing s \<longrightarrow>
        runCallback cb s = Inr s)"
  using closing_step [of s e s'] quiet_callback [of cb s s'] busy_retry [of cb s]
  by (simp add: onExit_frame scheduleExecution_def)


theorem quiescence_after_exit_witness:
  "exitListeners exampleDisconnected \<noteq> [] \<and>
   debuggerExecutableClosing exampleClosing \<and>
   timeouts exampleClosing =
     [CB_continueRequestFinalize (newResponse 1) 1, CB_nextRequest (newResponse 2)] \<and>
   step exampleClosing Timeout =
     Inr (exampleClosing\<lparr>timeouts := [CB_nextRequest (newResponse 2)]\<rparr>) \<and>
   scheduleExecution (CB_nextRequest (newResponse 2)) exampleClosing = exampleClosing \<and>
   childStdin (exampleClosing\<lparr>timeouts := [CB_nextRequest (newResponse 2)]\<rparr>) =
     childStdin exampleClosing"
proof -
  have l: "exitListeners exampleDisconnected \<noteq> []" by code_simp
  have t: "timeouts exampleClosing =
      [CB_continueRequestFinalize (newResponse 1) 1, CB_nextRequest (newResponse 2)]"
    by code_simp
  have w: "\<not> promptReached (exampleClosing\<lparr>timeouts := [CB_nextRequest (newResponse 2)]\<rparr>) 1"
    by code_simp
  note q = quiescence_after_exit [of exampleDisconnected "CB_nextRequest (newResponse 2)"
      Timeout "exampleClosing"]
  have c: "debuggerExecutableClosing exampleClosing"
    using l q by (simp add: exampleClosing_def)
  have st: "step exampleClosing Timeout =
      Inr (exampleClosing\<lparr>timeouts := [CB_nextRequest (newResponse 2)]\<rparr>)"
    using t w c by (simp add: continueRequestFinalize_def scheduleExecution_def)
  note q2 = quiescence_after_exit [of exampleClosing "CB_nextRequest (newResponse 2)"
      Timeout "exampleClosing\<lparr>timeouts := [CB_nextRequest (newResponse 2)]\<rparr>"]
  have sch: "scheduleExecution (CB_nextRequest (newResponse 2)) exampleClosing = exampleClosing"
    using c q2 by blast
  show ?thesis using l c t st sch by simp
qed

text \<open>
  The claim as it is stated does not hold for a request that waits to be offered
  again when the child exits. In the run below a continue request is in flight, a next
  request has been rescheduled, and the disconnect request clears the busy flag. After the
  exit event the session is closing and two callbacks wait; when the second comes due,
  the next request finds the gate free and writes its command to the child's input.
\<close>

theorem quiescence_after_exit_counterexample:
  "map_sum id debuggerExecutableClosing (run newSession (exampleRequests @ [ChildExit])) = Inr True \<and>
   map_sum id timeouts (run newSession (exampleRequests @ [ChildExit])) =
     Inr [CB_continueRequestFinalize (newResponse 1) 1, CB_nextRequest (newResponse 2)] \<and>
   map_sum id childStdin (run newSession (exampleRequests @ [ChildExit])) =
     Inr [''print continue'' @ nl @ ''continue'' @ nl @ printEndMarker] \<and>
   map_sum id childStdin (run newSession (exampleRequests @ [ChildExit, Timeout, Timeout])) =
     Inr [''print continue'' @ nl @ ''continue'' @ nl @ printEndMarker,
          ''print next'' @ nl @ ''next'' @ nl @ printEndMarker]"
  by code_simp

section \<open>At most one command in flight\<close>

lemma setBreakPointsRequest_shape:
  "if debuggerExecutableBusy s then neutral s (setBreakPointsRequest r a s)
   else admitting s (setBreakPointsRequest r a s)"
  unfolding neutral_def admitting_def pollers_def
  by (auto simp: setBreakPointsRequest_def effect_defs Let_def
      intro!: exI [of _ "CB_setBreakPointsRequestFinalize r a (length (fullDebugOutput s))"])

lemma stackTraceRequest_shape:
  "if debuggerExecutableBusy s then neutral s (stackTraceRequest r a s)
   else admitting s (stackTraceRequest r a s)"
  unfolding neutral_def admitting_def pollers_def
  by (auto simp: stackTraceRequest_def effect_defs Let_def
      intro!: exI [of _ "CB_stackTraceRequestFinalize r a (length (fullDebugOutput s))"])

lemma variablesRequest_shape:
  "if debuggerExecutableBusy s then neutral s (variablesRequest r s)
   else admitting s (variablesRequest r s)"
  unfolding neutral_def admitting_def pollers_def
  by (auto simp: variablesRequest_def effect_defs Let_def
      intro!: exI [of _ "CB_variablesRequestFinalize r (length (fullDebugOutput s))"])

lemma continueRequest_shape:
  "if debuggerExecutableBusy s then neutral s (continueRequest r s)
   else admitting s (continueRequest r s)"
  unfolding neutral_def admitting_def pollers_def
  by (auto simp: continueRequest_def effect_defs Let_def
      intro!: exI [of _ "CB_continueRequestFinalize r (length (fullDebugOutput s))"])

lemma nextRequest_shape:
  "if debuggerExecutableBusy s then neutral s (nextRequest r s)
   else admitting s (nextRequest r s)"
  unfolding neutral_def admitting_def pollers_def
  by (auto simp: nextRequest_def effect_defs Let_def
      intro!: exI [of _ "CB_nextRequestFinalize r (length (fullDebugOutput s))"])

lemma stepInRequest_shape:
  "if debuggerExecutableBusy s then neutral s (stepInRequest r s)
   else admitting s (stepInRequest r s)"
  unfolding neutral_def admitting_def pollers_def
  by (auto simp: stepInRequest_def effect_defs Let_def
      intro!: exI [of _ "CB_stepInRequestFinalize r (length (fullDebugOutput s))"])

lemma stepOutRequest_shape:
  "if debuggerExecutableBusy s then neutral s (stepOutRequest r s)
   else admitting s (stepOutRequest r s)"
  unfolding neutral_def admitting_def pollers_def
  by (auto simp: stepOutRequest_def effect_defs Let_def
      intro!: exI [of _ "CB_stepOutRequestFinalize r (length (fullDebugOutput s))"])

lemma evaluateRequest_shape:
  "if debuggerExecutableBusy s then neutral s (evaluateRequest r x s)
   else admitting s (evaluateRequest r x s)"
  unfolding neutral_def admitting_def pollers_def
  by (auto simp: evaluateRequest_def effect_defs Let_def
      intro!: exI [of _ "CB_evaluateRequestFinalize r x (length (fullDebugOutput s))"])

lemmas gated_shapes =
  setBreakPointsRequest_shape stackTraceRequest_shape variablesRequest_shape
  continueRequest_shape nextRequest_shape stepInRequest_shape stepOutRequest_shape
  evaluateRequest_shape

lemma gated_request_shape:
  "isGated q \<Longrightarrow>
   (if debuggerExecutableBusy s then neutral s (dispatchRequest r q s)
    else admitting s (dispatchRequest r q s))"
  by (cases q) (simp_all add: gated_shapes)

lemma ungated_neutral:
  "neutral s (initializeRequest r s)"
  "neutral s (threadsRequest r s)"
  "neutral s (scopesRequest r s)"
  "neutral s (launchRequestFinalize r a s)"
  "neutral s (processDebugTerminalOutput b s)"
  "neutral s (onEnd b s)"
  "neutral s (onStdout d s)"
  "neutral s (onStderr d s)"
  "neutral s (s\<lparr>fifoExists := x\<rparr>)"
  unfolding neutral_def pollers_def
  by (simp_all add: plain_defs finalize_defs effect_defs)

lemma onData_neutral: "neutral s (onData b d s)"
  unfolding neutral_def pollers_def
  by (simp add: onData_def effect_defs Let_def)

lemma onInterval_neutral: "neutral s (onInterval s)"
  unfolding neutral_def pollers_def by (simp add: onInterval_frame)

lemma onExit_neutral: "neutral s (onExit s)"
  unfolding neutral_def pollers_def by (simp add: onExit_frame)

lemma request_shape:
  "\<not> isDisconnect (Request seq q) \<Longrightarrow>
   neutral s (dispatchRequest r q s) \<or> admitting s (dispatchRequest r q s)"
proof (cases "isGated q")
  case True
  then show ?thesis using gated_request_shape [of q s r] by (auto split: if_splits)
next
  case False
  assume "\<not> isDisconnect (Request seq q)"
  then show ?thesis using False by (cases q) (simp_all add: ungated_neutral)
qed

lemma retry_shape:
  "isRetry cb \<Longrightarrow>
   \<exists>s'. runCallback cb s = Inr s' \<and>
     (if debuggerExecutableBusy s then neutral s s' else admitting s s')"
  by (cases cb) (simp_all add: gated_shapes)

lemma nonpoller_shape:
  "\<not> isPoller cb \<Longrightarrow> \<exists>s'. runCallback cb s = Inr s' \<and> (neutral s s' \<or> admitting s s')"
proof (cases "isRetry cb")
  case True
  then show ?thesis using retry_shape [of cb s] by (auto split: if_splits)
next
  case False
  assume "\<not> isPoller cb"
  then show ?thesis using False by (cases cb) (simp_all add: ungated_neutral)
qed

lemma variableLoop_total:
  "\<forall>i \<in> set idxs. 1 \<le> i \<and> i < length (fullDebugOutput s) \<Longrightarrow>
   \<exists>vs. variableLoop s idxs acc = Inr vs"
proof (induction idxs arbitrary: acc)
  case Nil
  then show ?case by simp
next
  case (Cons i rest)
  then have i: "1 \<le> i" "i < length (fullDebugOutput s)" by auto
  have r: "\<forall>j \<in> set rest. 1 \<le> j \<and> j < length (fullDebugOutput s)" using Cons.prems by auto
  have p: "jsIndex (fullDebugOutput s) (int i - 1) = Some (fullDebugOutput s ! (i - 1))"
    using i by (intro jsIndex_pred) auto
  have c: "jsIndex (fullDebugOutput s) (int i) = Some (fullDebugOutput s ! i)"
    using i by (intro jsIndex_in)
  show ?case using Cons.IH [OF r] p c by simp
qed

lemma variablesRequestFinalize_done:
  assumes reached: "promptReached s n" and n: "1 \<le> n"
  shows "\<exists>vs. variablesRequestFinalize r n s =
     Inr (sendResponse (r\<lparr>body := Some (VariablesBody vs)\<rparr>)
            (s\<lparr>debuggerExecutableBusy := False\<rparr>))"
proof -
  have "\<forall>i \<in> set [n ..< length (fullDebugOutput s) - 2]. 1 \<le> i \<and> i < length (fullDebugOutput s)"
    using n by auto
  from variableLoop_total [OF this, of "[]"]
  obtain vs where "variableLoop s [n ..< length (fullDebugOutput s) - 2] [] = Inr vs" by blast
  then have "variablesRequestFinalize r n s =
      Inr (sendResponse (r\<lparr>body := Some (VariablesBody vs)\<rparr>)
             (s\<lparr>debuggerExecutableBusy := False\<rparr>))"
    using reached by (simp add: variablesRequestFinalize_def)
  then show ?thesis by blast
qed

text \<open>What a completion poller does when it comes due.\<close>

lemma poller_shape:
  assumes p: "isPoller cb" and m: "1 \<le> pollerMark cb"
  shows "\<exists>s'. runCallback cb s = Inr s' \<and>
     childStdin s' = childStdin s \<and> killCallbacks s' = killCallbacks s \<and>
     fullDebugOutput s' = fullDebugOutput s \<and>
     (if promptReached s (pollerMark cb)
      then \<not> debuggerExecutableBusy s' \<and> pollers s' = pollers s
      else debuggerExecutableBusy s' = debuggerExecutableBusy s \<and>
           pollers s' = pollers s @ (if debuggerExecutableClosing s then [] else [cb]))"
proof (cases cb)
  case (CB_setBreakPointsRequestFinalize r a n)
  show ?thesis
  proof (cases "promptReached s n")
    case True
    have n: "1 \<le> n" using m CB_setBreakPointsRequestFinalize by simp
    show ?thesis
      using True CB_setBreakPointsRequestFinalize
        setBreakPointsRequestFinalize_done [OF True n, of r a]
      by (simp add: pollers_def)
  next
    case False
    then show ?thesis
      using CB_setBreakPointsRequestFinalize setBreakPointsRequestFinalize_waiting [OF False, of r a]
      by (simp add: pollers_def effect_defs)
  qed
next
  case (CB_variablesRequestFinalize r n)
  show ?thesis
  proof (cases "promptReached s n")
    case True
    have n: "1 \<le> n" using m CB_variablesRequestFinalize by simp
    from variablesRequestFinalize_done [OF True n, of r]
    obtain vs where "variablesRequestFinalize r n s =
        Inr (sendResponse (r\<lparr>body := Some (VariablesBody vs)\<rparr>)
               (s\<lparr>debuggerExecutableBusy := False\<rparr>))"
      by blast
    then show ?thesis
      using True CB_variablesRequestFinalize by (simp add: pollers_def effect_defs)
  next
    case False
    then show ?thesis
      using CB_variablesRequestFinalize
      by (simp add: variablesRequestFinalize_def pollers_def effect_defs)
  qed
qed (use p in \<open>auto simp: finalize_defs pollers_def effect_defs Let_def\<close>)

lemma neutral_from:
  assumes "neutral sr s'"
    and "debuggerExecutableBusy sr = debuggerExecutableBusy s"
    and "childStdin sr = childStdin s"
    and "killCallbacks sr = killCallbacks s"
    and "pollers sr = pollers s"
    and "fullDebugOutput sr = fullDebugOutput s"
  shows "neutral s s'"
  using assms by (simp add: neutral_def)

lemma admitting_from:
  assumes "admitting sr s'"
    and "debuggerExecutableBusy sr = debuggerExecutableBusy s"
    and "childStdin sr = childStdin s"
    and "killCallbacks sr = killCallbacks s"
    and "pollers sr = pollers s"
    and "fullDebugOutput sr = fullDebugOutput s"
    and "debuggerExecutableClosing sr = debuggerExecutableClosing s"
  shows "admitting s s'"
  using assms by (simp add: admitting_def)

text \<open>Every reaction other than a disconnect request has one of three shapes.\<close>

lemma step_shape:
  assumes k: "killCallbacks s = 0" and d: "\<not> isDisconnect e"
    and marks: "list_all (\<lambda>cb. 1 \<le> pollerMark cb) (pollers s)"
  shows "\<exists>s'. step s e = Inr s' \<and>
     (neutral s s' \<or> admitting s s' \<or>
      (\<exists>cb rest. e = Timeout \<and> timeouts s = cb # rest \<and> isPoller cb \<and>
         childStdin s' = childStdin s \<and> killCallbacks s' = killCallbacks s \<and>
         fullDebugOutput s' = fullDebugOutput s \<and>
         (if promptReached s (pollerMark cb)
          then \<not> debuggerExecutableBusy s' \<and> pollers s' = filter isPoller rest
          else debuggerExecutableBusy s' = debuggerExecutableBusy s \<and>
               pollers s' = filter isPoller rest @
                 (if debuggerExecutableClosing s then [] else [cb]))))"
proof (cases e)
  case (Request seq q)
  then show ?thesis using d request_shape [of seq q s "newResponse seq"] by auto
next
  case Timeout
  show ?thesis
  proof (cases "timeouts s")
    case Nil
    then show ?thesis using Timeout by (simp add: neutral_def)
  next
    case (Cons cb rest)
    let ?sr = "s\<lparr>timeouts := rest\<rparr>"
    have st: "step s Timeout = runCallback cb ?sr" using Cons by simp
    show ?thesis
    proof (cases "isPoller cb")
      case True
      have "cb \<in> set (pollers s)" using True Cons by (simp add: pollers_def)
      then have m: "1 \<le> pollerMark cb" using marks by (simp add: list_all_iff)
      have pr: "promptReached ?sr (pollerMark cb) = promptReached s (pollerMark cb)"
        by (simp add: promptReached_def)
      have ps: "pollers ?sr = filter isPoller rest" by (simp add: pollers_def)
      from poller_shape [OF True m, of ?sr]
      obtain s' where "runCallback cb ?sr = Inr s'"
        and "childStdin s' = childStdin s" and "killCallbacks s' = killCallbacks s"
        and "fullDebugOutput s' = fullDebugOutput s"
        and "if promptReached s (pollerMark cb)
             then \<not> debuggerExecutableBusy s' \<and> pollers s' = filter isPoller rest
             else debuggerExecutableBusy s' = debuggerExecutableBusy s \<and>
                  pollers s' = filter isPoller rest @
                    (if debuggerExecutableClosing s then [] else [cb])"
        unfolding pr ps by auto
      then show ?thesis using Timeout Cons True st by auto
    next
      case False
      have ps: "pollers ?sr = pollers s" using False Cons by (simp add: pollers_def)
      from nonpoller_shape [OF False, of ?sr]
      obtain s' where r: "runCallback cb ?sr = Inr s'" and sh: "neutral ?sr s' \<or> admitting ?sr s'"
        by blast
      have "neutral s s' \<or> admitting s s'"
        using sh
      proof
        assume "neutral ?sr s'"
        then have "neutral s s'" by (rule neutral_from) (simp_all add: ps)
        then show ?thesis ..
      next
        assume "admitting ?sr s'"
        then have "admitting s s'" by (rule admitting_from) (simp_all add: ps)
        then show ?thesis ..
      qed
      then show ?thesis using Timeout st r by auto
    qed
  qed
next
  case Interval
  then show ?thesis using onInterval_neutral [of s] by (auto simp: neutral_def)
next
  case (FifoData b x)
  then show ?thesis using onData_neutral [of s b x] by auto
next
  case (FifoEnd b)
  then show ?thesis using ungated_neutral(6) [of s b] by auto
next
  case (StdoutData x)
  then show ?thesis using ungated_neutral(7) [of s x] by auto
next
  case (StderrData x)
  then show ?thesis using ungated_neutral(8) [of s x] by auto
next
  case ChildExit
  then show ?thesis using onExit_neutral [of s] by auto
next
  case KillDone
  then show ?thesis using k by (simp add: onKillDone_def neutral_def)
next
  case FifoCreated
  then show ?thesis using ungated_neutral(9) [of s True] by auto
next
  case FifoRemoved
  then show ?thesis using ungated_neutral(9) [of s False] by auto
qed

lemma gateInvariant_neutral: "gateInvariant s \<Longrightarrow> neutral s s' \<Longrightarrow> gateInvariant s'"
  by (simp add: gateInvariant_def neutral_def)

lemma gateInvariant_admitting:
  assumes inv: "gateInvariant s" and a: "admitting s s'"
  shows "gateInvariant s'"
proof -
  have e: "pollers s = []" using inv a by (simp add: gateInvariant_def admitting_def)
  have b: "1 \<le> length (fullDebugOutput s)"
    using inv by (cases "fullDebugOutput s") (simp_all add: gateInvariant_def)
  from a obtain p where "isPoller p" and "pollerMark p = length (fullDebugOutput s)"
    and "pollers s' = pollers s @ (if debuggerExecutableClosing s then [] else [p])"
    by (auto simp: admitting_def)
  then show ?thesis using inv a e b by (auto simp: gateInvariant_def admitting_def)
qed

lemma gateInvariant_step:
  assumes inv: "gateInvariant s" and d: "\<not> isDisconnect e"
  shows "\<exists>s'. step s e = Inr s' \<and> gateInvariant s'"
proof -
  have k: "killCallbacks s = 0" and marks: "list_all (\<lambda>cb. 1 \<le> pollerMark cb) (pollers s)"
    using inv by (simp_all add: gateInvariant_def)
  from step_shape [OF k d marks] obtain s' where st: "step s e = Inr s'"
    and sh: "neutral s s' \<or> admitting s s' \<or>
      (\<exists>cb rest. e = Timeout \<and> timeouts s = cb # rest \<and> isPoller cb \<and>
         childStdin s' = childStdin s \<and> killCallbacks s' = killCallbacks s \<and>
         fullDebugOutput s' = fullDebugOutput s \<and>
         (if promptReached s (pollerMark cb)
          then \<not> debuggerExecutableBusy s' \<and> pollers s' = filter isPoller rest
          else debuggerExecutableBusy s' = debuggerExecutableBusy s \<and>
               pollers s' = filter isPoller rest @
                 (if debuggerExecutableClosing s then [] else [cb])))"
    by blast
  from sh have "gateInvariant s'"
  proof (elim disjE exE conjE)
    assume "neutral s s'"
    with inv show ?thesis by (rule gateInvariant_neutral)
  next
    assume "admitting s s'"
    with inv show ?thesis by (rule gateInvariant_admitting)
  next
    fix cb rest
    assume t: "timeouts s = cb # rest" and p: "isPoller cb"
      and f: "killCallbacks s' = killCallbacks s" "fullDebugOutput s' = fullDebugOutput s"
      and c: "if promptReached s (pollerMark cb)
          then \<not> debuggerExecutableBusy s' \<and> pollers s' = filter isPoller rest
          else debuggerExecutableBusy s' = debuggerExecutableBusy s \<and>
               pollers s' = filter isPoller rest @
                 (if debuggerExecutableClosing s then [] else [cb])"
    have ps: "pollers s = cb # filter isPoller rest" using t p by (simp add: pollers_def)
    then have r: "filter isPoller rest = []" and m: "1 \<le> pollerMark cb"
      and b: "debuggerExecutableBusy s"
      using inv by (auto simp: gateInvariant_def)
    show ?thesis
      using inv f c r m b by (auto simp: gateInvariant_def split: if_splits)
  qed
  then show ?thesis using st by blast
qed

lemma gateInvariant_run:
  "gateInvariant s \<Longrightarrow> list_all (\<lambda>e. \<not> isDisconnect e) es \<Longrightarrow>
   \<exists>s'. run s es = Inr s' \<and> gateInvariant s'"
proof (induction es arbitrary: s)
  case Nil
  then show ?case by simp
next
  case (Cons e es)
  then have "\<not> isDisconnect e" and rest: "list_all (\<lambda>e. \<not> isDisconnect e) es" by auto
  from gateInvariant_step [OF Cons.prems(1) this(1)]
  obtain s1 where st: "step s e = Inr s1" and inv1: "gateInvariant s1" by blast
  from Cons.IH [OF inv1 rest] obtain s' where "run s1 es = Inr s'" and "gateInvariant s'"
    by blast
  then show ?case using st by auto
qed

lemma holding_step:
  assumes h: "holding p written s" and d: "\<not> isDisconnect e"
  shows "\<exists>s'. step s e = Inr s' \<and> gateInvariant s' \<and>
     (holding p written s' \<or>
      (e = Timeout \<and> (\<exists>rest. timeouts s = p # rest) \<and> promptReached s (pollerMark p)))"
proof -
  have inv: "gateInvariant s" and busy: "debuggerExecutableBusy s"
    and w: "childStdin s = written" and sub: "set (pollers s) \<subseteq> {p}"
    using h by (simp_all add: holding_def)
  have k: "killCallbacks s = 0" and marks: "list_all (\<lambda>cb. 1 \<le> pollerMark cb) (pollers s)"
    using inv by (simp_all add: gateInvariant_def)
  from gateInvariant_step [OF inv d] obtain s0 where st0: "step s e = Inr s0"
    and inv0: "gateInvariant s0" by blast
  from step_shape [OF k d marks] st0 have
    sh: "neutral s s0 \<or> admitting s s0 \<or>
      (\<exists>cb rest. e = Timeout \<and> timeouts s = cb # rest \<and> isPoller cb \<and>
         childStdin s0 = childStdin s \<and> killCallbacks s0 = killCallbacks s \<and>
         fullDebugOutput s0 = fullDebugOutput s \<and>
         (if promptReached s (pollerMark cb)
          then \<not> debuggerExecutableBusy s0 \<and> pollers s0 = filter isPoller rest
          else debuggerExecutableBusy s0 = debuggerExecutableBusy s \<and>
               pollers s0 = filter isPoller rest @
                 (if debuggerExecutableClosing s then [] else [cb])))"
    by auto
  from sh have "holding p written s0 \<or>
      (e = Timeout \<and> (\<exists>rest. timeouts s = p # rest) \<and> promptReached s (pollerMark p))"
  proof (elim disjE exE conjE)
    assume "neutral s s0"
    then have "holding p written s0"
      using inv0 busy w sub by (simp add: holding_def neutral_def)
    then show ?thesis ..
  next
    assume "admitting s s0"
    then show ?thesis using busy by (simp add: admitting_def)
  next
    fix cb rest
    assume e: "e = Timeout" and t: "timeouts s = cb # rest" and p: "isPoller cb"
      and f: "childStdin s0 = childStdin s"
      and c: "if promptReached s (pollerMark cb)
          then \<not> debuggerExecutableBusy s0 \<and> pollers s0 = filter isPoller rest
          else debuggerExecutableBusy s0 = debuggerExecutableBusy s \<and>
               pollers s0 = filter isPoller rest @
                 (if debuggerExecutableClosing s then [] else [cb])"
    have ps: "pollers s = cb # filter isPoller rest" using t p by (simp add: pollers_def)
    then have cb: "cb = p" and r: "set (filter isPoller rest) \<subseteq> {p}" using sub by auto
    show ?thesis
    proof (cases "promptReached s (pollerMark cb)")
      case True
      then show ?thesis using e t cb by auto
    next
      case False
      then have "holding p written s0"
        using c inv0 busy w f r cb by (auto simp: holding_def)
      then show ?thesis ..
    qed
  qed
  then show ?thesis using st0 inv0 by blast
qed

lemma holding_run:
  "holding p written s \<Longrightarrow> list_all (\<lambda>e. \<not> isDisconnect e) es \<Longrightarrow>
   \<exists>s'. run s es = Inr s' \<and> gateInvariant s' \<and>
     (holding p written s' \<or>
      (\<exists>es1 es2 sm rest. es = es1 @ Timeout # es2 \<and> run s es1 = Inr sm \<and>
         holding p written sm \<and> timeouts sm = p # rest \<and> promptReached sm (pollerMark p)))"
proof (induction es arbitrary: s)
  case Nil
  then show ?case by (simp add: holding_def)
next
  case (Cons e es)
  then have d: "\<not> isDisconnect e" and rest: "list_all (\<lambda>e. \<not> isDisconnect e) es" by auto
  from holding_step [OF Cons.prems(1) d]
  obtain s1 where st: "step s e = Inr s1" and inv1: "gateInvariant s1"
    and alt: "holding p written s1 \<or>
      (e = Timeout \<and> (\<exists>rest. timeouts s = p # rest) \<and> promptReached s (pollerMark p))"
    by blast
  from alt show ?case
  proof
    assume h1: "holding p written s1"
    from Cons.IH [OF h1 rest] obtain s' where r: "run s1 es = Inr s'" and inv': "gateInvariant s'"
      and alt': "holding p written s' \<or>
        (\<exists>es1 es2 sm rest. es = es1 @ Timeout # es2 \<and> run s1 es1 = Inr sm \<and>
           holding p written sm \<and> timeouts sm = p # rest \<and> promptReached sm (pollerMark p))"
      by blast
    from alt' have "holding p written s' \<or>
        (\<exists>es1 es2 sm rest. e # es = es1 @ Timeout # es2 \<and> run s es1 = Inr sm \<and>
           holding p written sm \<and> timeouts sm = p # rest \<and> promptReached sm (pollerMark p))"
    proof
      assume "holding p written s'"
      then show ?thesis ..
    next
      assume "\<exists>es1 es2 sm rest. es = es1 @ Timeout # es2 \<and> run s1 es1 = Inr sm \<and>
           holding p written sm \<and> timeouts sm = p # rest \<and> promptReached sm (pollerMark p)"
      then obtain es1 es2 sm rest' where sp: "es = es1 @ Timeout # es2"
        and rm: "run s1 es1 = Inr sm" and hm: "holding p written sm"
        and tm: "timeouts sm = p # rest'" and pm: "promptReached sm (pollerMark p)"
        by blast
      have "e # es = (e # es1) @ Timeout # es2" using sp by simp
      moreover have "run s (e # es1) = Inr sm" using st rm by simp
      ultimately show ?thesis using hm tm pm by blast
    qed
    then show ?thesis using st r inv' by auto
  next
    assume c: "e = Timeout \<and> (\<exists>rest. timeouts s = p # rest) \<and> promptReached s (pollerMark p)"
    from gateInvariant_run [OF inv1 rest] obtain s' where r: "run s1 es = Inr s'"
      and inv': "gateInvariant s'" by blast
    from c obtain rest' where tm: "timeouts s = p # rest'" by blast
    have "e # es = [] @ Timeout # es" using c by simp
    moreover have "run s [] = Inr s" by simp
    ultimately have "\<exists>es1 es2 sm rest. e # es = es1 @ Timeout # es2 \<and> run s es1 = Inr sm \<and>
           holding p written sm \<and> timeouts sm = p # rest \<and> promptReached sm (pollerMark p)"
      using Cons.prems(1) tm c by blast
    then show ?thesis using st r inv' by auto
  qed
qed

lemma launched_gateInvariant: "gateInvariant (launchRequest r a newSession)"
  by (simp add: gateInvariant_def pollers_def launchRequest_def processDebugTerminalOutput_def
      effect_defs newSession_def Let_def)

lemma busy_gated_request:
  "isGated q \<Longrightarrow> debuggerExecutableBusy s \<Longrightarrow>
   childStdin (dispatchRequest r q s) = childStdin s \<and>
   pollers (dispatchRequest r q s) = pollers s \<and>
   debuggerExecutableBusy (dispatchRequest r q s)"
  using gated_request_shape [of q s r] by (simp add: neutral_def)

text \<open>
  Claim C2, as amended. Take a session in which no disconnect has been requested (the
  invariant of the gate holds) and the gate is free. A request of one of the eight
  gated kinds is then admitted: it sets the busy flag and writes its command. Whatever
  happens next, short of a disconnect request, the session does not throw, at most one
  completion poller waits at any time, and the child's input stays as that command left
  it (every further gated request being rescheduled instead of written) until the
  command's own poller has come due in a session where the detector holds for the
  command's high-water mark. A gated request that arrives while the flag is set writes
  nothing and starts no poller.
\<close>

theorem one_command_in_flight:
  assumes inv: "gateInvariant s" and free: "\<not> debuggerExecutableBusy s"
    and gated: "isGated q" and nodisc: "list_all (\<lambda>e. \<not> isDisconnect e) es"
  shows "(\<exists>txt. childStdin (dispatchRequest r q s) = childStdin s @ [txt]) \<and>
    debuggerExecutableBusy (dispatchRequest r q s) \<and>
    (\<exists>s'. run (dispatchRequest r q s) es = Inr s' \<and> gateInvariant s' \<and>
       length (pollers s') \<le> 1 \<and>
       (childStdin s' = childStdin (dispatchRequest r q s) \<or>
        (\<exists>es1 es2 sm p rest. es = es1 @ Timeout # es2 \<and>
           run (dispatchRequest r q s) es1 = Inr sm \<and>
           childStdin sm = childStdin (dispatchRequest r q s) \<and>
           length (pollers sm) \<le> 1 \<and>
           timeouts sm = p # rest \<and> isPoller p \<and>
           pollerMark p = length (fullDebugOutput s) \<and>
           promptReached sm (length (fullDebugOutput s))))) \<and>
    (\<forall>t r' q'. isGated q' \<and> debuggerExecutableBusy t \<longrightarrow>
       childStdin (dispatchRequest r' q' t) = childStdin t \<and>
       pollers (dispatchRequest r' q' t) = pollers t)"
proof -
  let ?s1 = "dispatchRequest r q s"
  have adm: "admitting s ?s1" using gated_request_shape [OF gated, of s r] free by simp
  have inv1: "gateInvariant ?s1" using inv adm by (rule gateInvariant_admitting)
  have e: "pollers s = []" using inv free by (simp add: gateInvariant_def)
  from adm obtain p where p: "isPoller p" and m: "pollerMark p = length (fullDebugOutput s)"
    and ps: "pollers ?s1 = pollers s @ (if debuggerExecutableClosing s then [] else [p])"
    by (auto simp: admitting_def)
  have b1: "debuggerExecutableBusy ?s1" using adm by (simp add: admitting_def)
  have w1: "\<exists>txt. childStdin ?s1 = childStdin s @ [txt]" using adm by (simp add: admitting_def)
  have h1: "holding p (childStdin ?s1) ?s1"
    using inv1 b1 ps e by (auto simp: holding_def)
  from holding_run [OF h1 nodisc] obtain s' where r: "run ?s1 es = Inr s'"
    and inv': "gateInvariant s'"
    and alt: "holding p (childStdin ?s1) s' \<or>
      (\<exists>es1 es2 sm rest. es = es1 @ Timeout # es2 \<and> run ?s1 es1 = Inr sm \<and>
         holding p (childStdin ?s1) sm \<and> timeouts sm = p # rest \<and>
         promptReached sm (pollerMark p))"
    by blast
  have len: "length (pollers s') \<le> 1" using inv' by (simp add: gateInvariant_def)
  from alt have "childStdin s' = childStdin ?s1 \<or>
        (\<exists>es1 es2 sm p rest. es = es1 @ Timeout # es2 \<and>
           run ?s1 es1 = Inr sm \<and>
           childStdin sm = childStdin ?s1 \<and>
           length (pollers sm) \<le> 1 \<and>
           timeouts sm = p # rest \<and> isPoller p \<and>
           pollerMark p = length (fullDebugOutput s) \<and>
           promptReached sm (length (fullDebugOutput s)))"
  proof
    assume "holding p (childStdin ?s1) s'"
    then show ?thesis by (simp add: holding_def)
  next
    assume "\<exists>es1 es2 sm rest. es = es1 @ Timeout # es2 \<and> run ?s1 es1 = Inr sm \<and>
         holding p (childStdin ?s1) sm \<and> timeouts sm = p # rest \<and>
         promptReached sm (pollerMark p)"
    then obtain es1 es2 sm rest where "es = es1 @ Timeout # es2" and "run ?s1 es1 = Inr sm"
      and hm: "holding p (childStdin ?s1) sm" and "timeouts sm = p # rest"
      and "promptReached sm (pollerMark p)"
      by blast
    moreover have "childStdin sm = childStdin ?s1" and "length (pollers sm) \<le> 1"
      using hm by (simp_all add: holding_def gateInvariant_def)
    ultimately show ?thesis using p m by auto
  qed
  then have main: "\<exists>s'. run ?s1 es = Inr s' \<and> gateInvariant s' \<and>
       length (pollers s') \<le> 1 \<and>
       (childStdin s' = childStdin ?s1 \<or>
        (\<exists>es1 es2 sm p rest. es = es1 @ Timeout # es2 \<and>
           run ?s1 es1 = Inr sm \<and>
           childStdin sm = childStdin ?s1 \<and>
           length (pollers sm) \<le> 1 \<and>
           timeouts sm = p # rest \<and> isPoller p \<and>
           pollerMark p = length (fullDebugOutput s) \<and>
           promptReached sm (length (fullDebugOutput s))))"
    using r inv' len by blast
  have busy: "\<forall>t r' q'. isGated q' \<and> debuggerExecutableBusy t \<longrightarrow>
       childStdin (dispatchRequest r' q' t) = childStdin t \<and>
       pollers (dispatchRequest r' q' t) = pollers t"
    using busy_gated_request by blast
  show ?thesis using w1 b1 main busy by blast
qed


theorem one_command_in_flight_witness:
  "gateInvariant newSession \<and> \<not> debuggerExecutableBusy newSession \<and>
   isGated ContinueRequest \<and> list_all (\<lambda>e. \<not> isDisconnect e) exampleTrace \<and>
   (\<exists>s'. run (dispatchRequest (newResponse 1) ContinueRequest newSession) exampleTrace = Inr s' \<and>
      gateInvariant s' \<and>
      childStdin s' =
        [''print continue'' @ nl @ ''continue'' @ nl @ printEndMarker,
         ''print next'' @ nl @ ''next'' @ nl @ printEndMarker]) \<and>
   (\<exists>es1 es2 sm p rest. exampleTrace = es1 @ Timeout # es2 \<and>
      run (dispatchRequest (newResponse 1) ContinueRequest newSession) es1 = Inr sm \<and>
      childStdin sm = [''print continue'' @ nl @ ''continue'' @ nl @ printEndMarker] \<and>
      timeouts sm = p # rest \<and> isPoller p \<and> promptReached sm 1)"
proof -
  let ?s1 = "dispatchRequest (newResponse 1) ContinueRequest newSession"
  have inv: "gateInvariant newSession" by code_simp
  have free: "\<not> debuggerExecutableBusy newSession" by code_simp
  have gated: "isGated ContinueRequest" by simp
  have nodisc: "list_all (\<lambda>e. \<not> isDisconnect e) exampleTrace" by code_simp
  have len: "length (fullDebugOutput newSession) = 1" by code_simp
  have one: "childStdin ?s1 = [''print continue'' @ nl @ ''continue'' @ nl @ printEndMarker]"
    by code_simp
  have two: "map_sum id childStdin (run ?s1 exampleTrace) =
      Inr [''print continue'' @ nl @ ''continue'' @ nl @ printEndMarker,
           ''print next'' @ nl @ ''next'' @ nl @ printEndMarker]"
    by code_simp
  from one_command_in_flight [OF inv free gated nodisc, of "newResponse 1"]
  obtain s' where r: "run ?s1 exampleTrace = Inr s'" and inv': "gateInvariant s'"
    and alt: "childStdin s' = childStdin ?s1 \<or>
        (\<exists>es1 es2 sm p rest. exampleTrace = es1 @ Timeout # es2 \<and>
           run ?s1 es1 = Inr sm \<and>
           childStdin sm = childStdin ?s1 \<and>
           length (pollers sm) \<le> 1 \<and>
           timeouts sm = p # rest \<and> isPoller p \<and>
           pollerMark p = length (fullDebugOutput newSession) \<and>
           promptReached sm (length (fullDebugOutput newSession)))"
    by blast
  have out: "childStdin s' =
      [''print continue'' @ nl @ ''continue'' @ nl @ printEndMarker,
       ''print next'' @ nl @ ''next'' @ nl @ printEndMarker]"
    using two r by simp
  then have "childStdin s' \<noteq> childStdin ?s1" using one by simp
  with alt have "\<exists>es1 es2 sm p rest. exampleTrace = es1 @ Timeout # es2 \<and>
           run ?s1 es1 = Inr sm \<and>
           childStdin sm = childStdin ?s1 \<and>
           length (pollers sm) \<le> 1 \<and>
           timeouts sm = p # rest \<and> isPoller p \<and>
           pollerMark p = length (fullDebugOutput newSession) \<and>
           promptReached sm (length (fullDebugOutput newSession))"
    by blast
  then have split: "\<exists>es1 es2 sm p rest. exampleTrace = es1 @ Timeout # es2 \<and>
      run ?s1 es1 = Inr sm \<and>
      childStdin sm = [''print continue'' @ nl @ ''continue'' @ nl @ printEndMarker] \<and>
      timeouts sm = p # rest \<and> isPoller p \<and> promptReached sm 1"
    unfolding one len by blast
  have "\<exists>s'. run ?s1 exampleTrace = Inr s' \<and> gateInvariant s' \<and>
      childStdin s' =
        [''print continue'' @ nl @ ''continue'' @ nl @ printEndMarker,
         ''print next'' @ nl @ ''next'' @ nl @ printEndMarker]"
    using r inv' out by blast
  then show ?thesis using inv free gated nodisc split by blast
qed

text \<open>
  The claim as it is stated does not hold once a disconnect request is handled, which
  clears the busy flag although the command in flight has not completed. In the run
  below a continue and a next request arrive back to back, then a disconnect request.
  The poller of the first command finds no sentinel and is rescheduled; the next request,
  offered again, finds the gate free and writes its command. The buffer has never held
  a sentinel, two commands have been written, and two pollers wait.
\<close>

theorem one_command_in_flight_counterexample:
  "map_sum id childStdin (run newSession (exampleRequests @ [Timeout, Timeout])) =
     Inr [''print continue'' @ nl @ ''continue'' @ nl @ printEndMarker,
          ''print next'' @ nl @ ''next'' @ nl @ printEndMarker] \<and>
   map_sum id fullDebugOutput (run newSession (exampleRequests @ [Timeout, Timeout])) = Inr [[]] \<and>
   map_sum id pollers (run newSession (exampleRequests @ [Timeout, Timeout])) =
     Inr [CB_continueRequestFinalize (newResponse 1) 1, CB_nextRequestFinalize (newResponse 2) 1] \<and>
   map_sum id debuggerExecutableClosing (run newSession (exampleRequests @ [Timeout, Timeout])) =
     Inr False"
  by code_simp

end
